theory Spec2Isabelle
  imports Main "HOL-Library.Char_ord" "HOL-Library.List_Lexorder"
begin

section \<open>The offline generation store of NexusAI (src/lib/storage/indexdb.ts)\<close>

subsection \<open>Data model\<close>

text \<open>
  \<open>IndexedDBGeneration\<close> as the store holds it at run time. The interface declares
  \<open>userId\<close>, \<open>type\<close>, \<open>prompt\<close>, \<open>result\<close>, \<open>createdAt\<close> and \<open>synced\<close> as required, but
  \<open>updateGeneration\<close> can store \<open>undefined\<close> in each of them, so every field but the key
  is an \<open>option\<close>, with \<open>None\<close> for \<open>undefined\<close>. A date field holds a \<open>Date\<close> object, or,
  in a record read back from JSON text, the ISO string of a \<open>Date\<close>; both are given by their
  time value in milliseconds. A result is a string or a \<open>Blob\<close>, or, read back from JSON
  text, the empty object that a \<open>Blob\<close> serialises to. The fields \<open>id\<close> and \<open>type\<close> carry
  a prime, their plain names being taken.
\<close>

datatype gen_type = Image | Video | Audio | Code | Conversation

datatype result = Text string | Blob "nat list" | EmptyObject

datatype date_value = DateObj int | IsoString int

type_synonym metadata = "(string \<times> string) list"

record generation =
  id' :: string
  userId :: "string option"
  type' :: "gen_type option"
  prompt :: "string option"
  result :: "result option"
  model :: "string option"
  metadata :: "metadata option"
  createdAt :: "date_value option"
  updatedAt :: "date_value option"
  synced :: "bool option"
  syncAttempts :: "int option"
  lastSyncAttempt :: "date_value option"
  tags :: "string list option"
  favorite :: "bool option"

text \<open>
  \<open>Omit<IndexedDBGeneration, 'id' | 'createdAt' | 'synced'>\<close>, the argument of
  \<open>saveGeneration\<close>, as its type has it.
\<close>

record new_generation =
  n_userId :: string
  n_type :: gen_type
  n_prompt :: string
  n_result :: result
  n_model :: "string option"
  n_metadata :: "metadata option"
  n_updatedAt :: "date_value option"
  n_syncAttempts :: "int option"
  n_lastSyncAttempt :: "date_value option"
  n_tags :: "string list option"
  n_favorite :: "bool option"

text \<open>
  \<open>Partial<IndexedDBGeneration>\<close>, the argument of \<open>updateGeneration\<close>. For every key,
  \<open>None\<close> is an object without the key, \<open>Some None\<close> an object that has the key with the
  value \<open>undefined\<close> (which the type admits and the spread copies like any other value),
  and \<open>Some (Some v)\<close> an object that has the key with the value \<open>v\<close>.
\<close>

record updates =
  u_id :: "string option option"
  u_userId :: "string option option"
  u_type :: "gen_type option option"
  u_prompt :: "string option option"
  u_result :: "result option option"
  u_model :: "string option option"
  u_metadata :: "metadata option option"
  u_createdAt :: "date_value option option"
  u_updatedAt :: "date_value option option"
  u_synced :: "bool option option"
  u_syncAttempts :: "int option option"
  u_lastSyncAttempt :: "date_value option option"
  u_tags :: "string list option option"
  u_favorite :: "bool option option"

definition no_updates :: updates where
  "no_updates = \<lparr> u_id = None, u_userId = None, u_type = None, u_prompt = None,
     u_result = None, u_model = None, u_metadata = None, u_createdAt = None,
     u_updatedAt = None, u_synced = None, u_syncAttempts = None,
     u_lastSyncAttempt = None, u_tags = None, u_favorite = None \<rparr>"

datatype error =
    InitializationFailed
  | DatabaseNotInitialized
  | NotAuthenticated
  | NotFound string
  | GenerationNotFound
  | DataError
  | ConversionFailed
  | PushFailed

subsection \<open>The object store\<close>

text \<open>
  The object store \<open>generations\<close> has key path \<open>id\<close>: it holds at most one record per id
  and hands records out in ascending key order. It is the list of its records, kept in
  that order. \<open>store_get\<close>, \<open>store_put\<close> and \<open>store_delete\<close> are the engine's \<open>get\<close>,
  \<open>put\<close> (insert or replace by key) and \<open>delete\<close>.
\<close>

type_synonym store = "generation list"

definition store_inv :: "store \<Rightarrow> bool" where
  "store_inv s = sorted_wrt (<) (map id' s)"

fun store_get :: "string \<Rightarrow> store \<Rightarrow> generation option" where
  "store_get k [] = None"
| "store_get k (g # gs) = (if id' g = k then Some g else store_get k gs)"

fun store_put :: "generation \<Rightarrow> store \<Rightarrow> store" where
  "store_put g [] = [g]"
| "store_put g (h # hs) =
     (if id' g = id' h then g # hs
      else if id' g < id' h then g # h # hs
      else h # store_put g hs)"

fun store_delete :: "string \<Rightarrow> store \<Rightarrow> store" where
  "store_delete k [] = []"
| "store_delete k (g # gs) = (if id' g = k then gs else g # store_delete k gs)"

subsection \<open>The manager\<close>

text \<open>
  \<open>IndexedDBManager\<close> holds the handle \<open>db\<close>, \<open>null\<close> until \<open>initialize\<close> has opened the
  database. What \<open>openDB\<close> yields is the argument \<open>engine\<close>: the persisted object store,
  or \<open>None\<close> when the database cannot be opened. Calls are sequential, so the shared
  \<open>initPromise\<close> of concurrent callers does not appear.
\<close>

record manager =
  db :: "store option"

definition initialize :: "store option \<Rightarrow> manager \<Rightarrow> error + manager" where
  "initialize engine m =
     (case db m of
        Some s \<Rightarrow> Inr m
      | None \<Rightarrow>
          (case engine of
             None \<Rightarrow> Inl InitializationFailed
           | Some s \<Rightarrow> Inr (m\<lparr>db := Some s\<rparr>)))"

text \<open>
  The prologue of every method: \<open>await this.initialize(); if (!this.db) throw ...\<close>.
\<close>

definition opened :: "store option \<Rightarrow> manager \<Rightarrow> error + store" where
  "opened engine m =
     (case initialize engine m of
        Inl e \<Rightarrow> Inl e
      | Inr m' \<Rightarrow> (case db m' of None \<Rightarrow> Inl DatabaseNotInitialized | Some s \<Rightarrow> Inr s))"

text \<open>
  The id of a new record is the template string
  \<open>gen_${Date.now()}_${Math.random().toString(36).substr(2, 9)}\<close>: \<open>stamp\<close> is
  \<open>Date.now()\<close>, printed in decimal digits, and \<open>rnd\<close> the base-36 digits cut from the
  random number.
\<close>

function digits :: "nat \<Rightarrow> string" where
  "digits n =
     (if n < 10 then [''0123456789'' ! n]
      else digits (n div 10) @ [''0123456789'' ! (n mod 10)])"
  by pat_completeness auto
termination
  by (relation "measure (\<lambda>n. n)") auto

declare digits.simps [simp del]

definition decimal :: "int \<Rightarrow> string" where
  "decimal i = (if i < 0 then CHR ''-'' # digits (nat (- i)) else digits (nat i))"

definition generationId :: "int \<Rightarrow> string \<Rightarrow> string" where
  "generationId stamp rnd = ''gen_'' @ decimal stamp @ ''_'' @ rnd"

text \<open>\<open>saveGeneration\<close>; \<open>now\<close> is \<open>new Date()\<close>.\<close>

definition saveGeneration ::
  "store option \<Rightarrow> int \<Rightarrow> string \<Rightarrow> int \<Rightarrow> new_generation \<Rightarrow> manager
     \<Rightarrow> error + (string \<times> manager)" where
  "saveGeneration engine stamp rnd now data m =
     (case opened engine m of
        Inl e \<Rightarrow> Inl e
      | Inr s \<Rightarrow>
          (let i = generationId stamp rnd;
               generationData = \<lparr> id' = i, userId = Some (n_userId data),
                 type' = Some (n_type data), prompt = Some (n_prompt data),
                 result = Some (n_result data), model = n_model data,
                 metadata = n_metadata data, createdAt = Some (DateObj now),
                 updatedAt = Some (DateObj now), synced = Some False,
                 syncAttempts = Some 0, lastSyncAttempt = n_lastSyncAttempt data,
                 tags = Some (case n_tags data of None \<Rightarrow> [] | Some t \<Rightarrow> t),
                 favorite = Some False \<rparr>
           in Inr (i, \<lparr>db = Some (store_put generationData s)\<rparr>)))"

text \<open>
  The spread \<open>{...existing, ...updates, updatedAt: new Date()}\<close> of \<open>updateGeneration\<close>.
  \<open>merged_id\<close> is the \<open>id\<close> of the object, \<open>undefined\<close> when the updates carry
  \<open>id: undefined\<close>; \<open>merge\<close> is the object under the key \<open>k\<close>.
\<close>

definition merged_id :: "generation \<Rightarrow> updates \<Rightarrow> string option" where
  "merged_id existing u = (case u_id u of None \<Rightarrow> Some (id' existing) | Some v \<Rightarrow> v)"

definition merge :: "generation \<Rightarrow> updates \<Rightarrow> int \<Rightarrow> string \<Rightarrow> generation" where
  "merge existing u now k =
     \<lparr> id' = k,
       userId = (case u_userId u of None \<Rightarrow> userId existing | Some v \<Rightarrow> v),
       type' = (case u_type u of None \<Rightarrow> type' existing | Some v \<Rightarrow> v),
       prompt = (case u_prompt u of None \<Rightarrow> prompt existing | Some v \<Rightarrow> v),
       result = (case u_result u of None \<Rightarrow> result existing | Some v \<Rightarrow> v),
       model = (case u_model u of None \<Rightarrow> model existing | Some v \<Rightarrow> v),
       metadata = (case u_metadata u of None \<Rightarrow> metadata existing | Some v \<Rightarrow> v),
       createdAt = (case u_createdAt u of None \<Rightarrow> createdAt existing | Some v \<Rightarrow> v),
       updatedAt = Some (DateObj now),
       synced = (case u_synced u of None \<Rightarrow> synced existing | Some v \<Rightarrow> v),
       syncAttempts =
         (case u_syncAttempts u of None \<Rightarrow> syncAttempts existing | Some v \<Rightarrow> v),
       lastSyncAttempt =
         (case u_lastSyncAttempt u of None \<Rightarrow> lastSyncAttempt existing | Some v \<Rightarrow> v),
       tags = (case u_tags u of None \<Rightarrow> tags existing | Some v \<Rightarrow> v),
       favorite = (case u_favorite u of None \<Rightarrow> favorite existing | Some v \<Rightarrow> v) \<rparr>"

text \<open>
  \<open>updateGeneration\<close>. \<open>store.put\<close> of an object whose key path gives \<open>undefined\<close> throws
  a \<open>DataError\<close>, which the method logs and throws again.
\<close>

definition updateGeneration ::
  "store option \<Rightarrow> int \<Rightarrow> string \<Rightarrow> updates \<Rightarrow> manager \<Rightarrow> error + manager" where
  "updateGeneration engine now i u m =
     (case opened engine m of
        Inl e \<Rightarrow> Inl e
      | Inr s \<Rightarrow>
          (case store_get i s of
             None \<Rightarrow> Inl (NotFound i)
           | Some existing \<Rightarrow>
               (case merged_id existing u of
                  None \<Rightarrow> Inl DataError
                | Some k \<Rightarrow> Inr \<lparr>db = Some (store_put (merge existing u now k) s)\<rparr>)))"

definition getGenerationById ::
  "store option \<Rightarrow> string \<Rightarrow> manager \<Rightarrow> error + generation option" where
  "getGenerationById engine i m =
     (case opened engine m of Inl e \<Rightarrow> Inl e | Inr s \<Rightarrow> Inr (store_get i s))"

text \<open>
  \<open>markAsSynced\<close> reads the clock for \<open>lastSyncAttempt\<close> (\<open>attempt\<close>) before
  \<open>updateGeneration\<close> reads it for \<open>updatedAt\<close> (\<open>now\<close>).
\<close>

definition markAsSynced ::
  "store option \<Rightarrow> int \<Rightarrow> int \<Rightarrow> string \<Rightarrow> manager \<Rightarrow> error + manager" where
  "markAsSynced engine attempt now i m =
     (case opened engine m of
        Inl e \<Rightarrow> Inl e
      | Inr s \<Rightarrow>
          updateGeneration engine now i
            (no_updates\<lparr>u_synced := Some (Some True),
               u_lastSyncAttempt := Some (Some (DateObj attempt))\<rparr>)
            (m\<lparr>db := Some s\<rparr>))"

text \<open>
  \<open>v || 0\<close> on a number that may be \<open>undefined\<close>.
\<close>

definition or0 :: "int option \<Rightarrow> int" where
  "or0 v = (case v of None \<Rightarrow> 0 | Some n \<Rightarrow> n)"

text \<open>
  \<open>x + 1\<close> on a JavaScript number that is a whole number. A number is a double: the sum
  is exact while it stays within \<open>2^53\<close> in size; beyond, it is rounded to the nearest
  double, to the one with the even mantissa when two are as near (between \<open>2^53\<close> and
  \<open>2^54\<close> the doubles are the even numbers, further out they are four or more apart).
\<close>

definition plusOne :: "int \<Rightarrow> int" where
  "plusOne x =
     (if - (2 ^ 53) \<le> x \<and> x < 2 ^ 53 then x + 1
      else if - (2 ^ 54) < x \<and> x < 2 ^ 54 then (if even (x div 2) then x else x + 2)
      else x)"

text \<open>
  \<open>markSyncFailed\<close>: a record that is gone is passed over in silence.
\<close>

definition markSyncFailed ::
  "store option \<Rightarrow> int \<Rightarrow> int \<Rightarrow> string \<Rightarrow> manager \<Rightarrow> error + manager" where
  "markSyncFailed engine attempt now i m =
     (case opened engine m of
        Inl e \<Rightarrow> Inl e
      | Inr s \<Rightarrow>
          (case getGenerationById engine i (m\<lparr>db := Some s\<rparr>) of
             Inl e \<Rightarrow> Inl e
           | Inr None \<Rightarrow> Inr (m\<lparr>db := Some s\<rparr>)
           | Inr (Some generation) \<Rightarrow>
               updateGeneration engine now i
                 (no_updates\<lparr>u_syncAttempts :=
                      Some (Some (plusOne (or0 (syncAttempts generation)))),
                    u_lastSyncAttempt := Some (Some (DateObj attempt))\<rparr>)
                 (m\<lparr>db := Some s\<rparr>)))"

definition deleteGeneration :: "store option \<Rightarrow> string \<Rightarrow> manager \<Rightarrow> error + manager" where
  "deleteGeneration engine i m =
     (case opened engine m of
        Inl e \<Rightarrow> Inl e
      | Inr s \<Rightarrow> Inr \<lparr>db = Some (store_delete i s)\<rparr>)"

definition toggleFavorite ::
  "store option \<Rightarrow> int \<Rightarrow> string \<Rightarrow> manager \<Rightarrow> error + (bool \<times> manager)" where
  "toggleFavorite engine now i m =
     (case getGenerationById engine i m of
        Inl e \<Rightarrow> Inl e
      | Inr None \<Rightarrow> Inl GenerationNotFound
      | Inr (Some generation) \<Rightarrow>
          (let newFavoriteStatus = (favorite generation \<noteq> Some True)
           in case updateGeneration engine now i
                     (no_updates\<lparr>u_favorite := Some (Some newFavoriteStatus)\<rparr>) m of
                Inl e \<Rightarrow> Inl e
              | Inr m' \<Rightarrow> Inr (newFavoriteStatus, m')))"

text \<open>\<open>[...new Set(xs)]\<close>: the first occurrence of every element, in order.\<close>

definition uniq :: "'a list \<Rightarrow> 'a list" where
  "uniq xs = fold (\<lambda>x acc. if x \<in> set acc then acc else acc @ [x]) xs []"

definition addTags ::
  "store option \<Rightarrow> int \<Rightarrow> string \<Rightarrow> string list \<Rightarrow> manager \<Rightarrow> error + manager" where
  "addTags engine now i ts m =
     (case getGenerationById engine i m of
        Inl e \<Rightarrow> Inl e
      | Inr None \<Rightarrow> Inl GenerationNotFound
      | Inr (Some generation) \<Rightarrow>
          (let existingTags = (case tags generation of None \<Rightarrow> [] | Some t \<Rightarrow> t);
               newTags = uniq (existingTags @ ts)
           in updateGeneration engine now i (no_updates\<lparr>u_tags := Some (Some newTags)\<rparr>) m))"

text \<open>\<open>importData\<close>: one \<open>put\<close> per item, in the order of the array.\<close>

definition importData ::
  "store option \<Rightarrow> generation list \<Rightarrow> manager \<Rightarrow> error + (nat \<times> manager)" where
  "importData engine data m =
     (case opened engine m of
        Inl e \<Rightarrow> Inl e
      | Inr s \<Rightarrow> Inr (length data, \<lparr>db = Some (fold store_put data s)\<rparr>))"

subsection \<open>Queries\<close>

text \<open>
  \<open>getUnsyncedGenerations\<close> is \<open>index('synced').getAll(false)\<close>. The valid keys of the
  engine are numbers, dates, strings, binary data and arrays of keys; \<open>false\<close> is none of
  these, and \<open>getAll\<close> throws a \<open>DataError\<close> for it, whatever the store holds. The method
  logs the error and throws it again.
\<close>

definition getUnsyncedGenerations ::
  "store option \<Rightarrow> manager \<Rightarrow> error + generation list" where
  "getUnsyncedGenerations engine m =
     (case opened engine m of
        Inl e \<Rightarrow> Inl e
      | Inr s \<Rightarrow> Inl DataError)"

datatype sort_field = CreatedAt | UpdatedAt

datatype sort_order = Asc | Desc

record get_options =
  o_type :: "gen_type option"
  o_limit :: "int option"
  o_offset :: "int option"
  o_sortBy :: "sort_field option"
  o_sortOrder :: "sort_order option"
  o_syncedOnly :: "bool option"
  o_favoritesOnly :: "bool option"

definition no_options :: get_options where
  "no_options = \<lparr> o_type = None, o_limit = None, o_offset = None, o_sortBy = None,
     o_sortOrder = None, o_syncedOnly = None, o_favoritesOnly = None \<rparr>"

text \<open>
  \<open>Array.prototype.slice(start, end)\<close> on whole numbers: a negative index counts from
  the end, and both are clamped to the array.
\<close>

definition slice :: "int \<Rightarrow> int \<Rightarrow> 'a list \<Rightarrow> 'a list" where
  "slice start fin xs =
     (let len = int (length xs);
          k = (if start < 0 then max (len + start) 0 else min start len);
          final = (if fin < 0 then max (len + fin) 0 else min fin len)
      in take (nat (final - k)) (drop (nat k) xs))"

text \<open>
  The number the comparator has for a record: the time of a \<open>Date\<close>; an ISO string or
  \<open>undefined\<close> turns the difference into \<open>NaN\<close> (\<open>None\<close>). The comparator is the difference
  of two such numbers.
\<close>

definition sortValue :: "sort_field \<Rightarrow> generation \<Rightarrow> int option" where
  "sortValue sortBy a =
     (case (case sortBy of CreatedAt \<Rightarrow> createdAt a | UpdatedAt \<Rightarrow> updatedAt a) of
        Some (DateObj t) \<Rightarrow> Some t
      | _ \<Rightarrow> None)"

definition compareFn :: "sort_field \<Rightarrow> sort_order \<Rightarrow> generation \<Rightarrow> generation \<Rightarrow> int option" where
  "compareFn sortBy sortOrder a b =
     (case (sortValue sortBy a, sortValue sortBy b) of
        (Some aValue, Some bValue) \<Rightarrow>
          Some (if sortOrder = Desc then bValue - aValue else aValue - bValue)
      | _ \<Rightarrow> None)"

text \<open>
  \<open>Array.prototype.sort\<close> belongs to the engine and is an argument, \<open>arraySort\<close>, of the
  methods that sort. What the language promises of it is \<open>ecma_sort\<close>: when the
  comparator is, on the elements of the array, the difference of a number that every
  element has, the result is the stable sort by that number. With a comparator that
  yields \<open>NaN\<close> the order is the engine's own, and nothing is said of it.
\<close>

type_synonym array_sort =
  "(generation \<Rightarrow> generation \<Rightarrow> int option) \<Rightarrow> generation list \<Rightarrow> generation list"

definition ecma_sort :: "array_sort \<Rightarrow> bool" where
  "ecma_sort arraySort =
     (\<forall>cmp xs key.
        (\<forall>x \<in> set xs. \<forall>y \<in> set xs. cmp x y = Some (key x - key y)) \<longrightarrow>
        arraySort cmp xs = sort_key key xs)"

text \<open>
  One sort that keeps the promise: the stable insertion sort, a comparator result of
  \<open>NaN\<close> counting as \<open>0\<close>.
\<close>

fun insertBy :: "('a \<Rightarrow> 'a \<Rightarrow> int option) \<Rightarrow> 'a \<Rightarrow> 'a list \<Rightarrow> 'a list" where
  "insertBy cmp x [] = [x]"
| "insertBy cmp x (y # ys) =
     (if or0 (cmp x y) \<le> 0 then x # y # ys else y # insertBy cmp x ys)"

definition insertionSort :: "('a \<Rightarrow> 'a \<Rightarrow> int option) \<Rightarrow> 'a list \<Rightarrow> 'a list" where
  "insertionSort cmp xs = foldr (insertBy cmp) xs []"

text \<open>
  The destructuring \<open>const { type, limit = 100, offset = 0, sortBy = 'createdAt',
  sortOrder = 'desc', syncedOnly, favoritesOnly } = options || {}\<close>.
\<close>

record query =
  q_type :: "gen_type option"
  q_limit :: int
  q_offset :: int
  q_sortBy :: sort_field
  q_sortOrder :: sort_order
  q_syncedOnly :: "bool option"
  q_favoritesOnly :: "bool option"

definition destructure :: "get_options option \<Rightarrow> query" where
  "destructure options =
     (let opts = (case options of None \<Rightarrow> no_options | Some v \<Rightarrow> v)
      in \<lparr> q_type = o_type opts,
           q_limit = (case o_limit opts of None \<Rightarrow> 100 | Some v \<Rightarrow> v),
           q_offset = (case o_offset opts of None \<Rightarrow> 0 | Some v \<Rightarrow> v),
           q_sortBy = (case o_sortBy opts of None \<Rightarrow> CreatedAt | Some v \<Rightarrow> v),
           q_sortOrder = (case o_sortOrder opts of None \<Rightarrow> Desc | Some v \<Rightarrow> v),
           q_syncedOnly = o_syncedOnly opts,
           q_favoritesOnly = o_favoritesOnly opts \<rparr>)"

text \<open>
  \<open>getGenerations\<close>. An index lookup \<open>index.getAll(key)\<close> with a string key, or an array
  of strings, returns the records whose indexed fields have that key, in key order of
  the object store: a filter of the store.
\<close>

definition getGenerations ::
  "array_sort \<Rightarrow> store option \<Rightarrow> string \<Rightarrow> get_options option \<Rightarrow> manager
     \<Rightarrow> error + generation list" where
  "getGenerations arraySort engine uid options m =
     (case opened engine m of
        Inl e \<Rightarrow> Inl e
      | Inr s \<Rightarrow>
          (let q = destructure options;
               results0 =
                 (case q_type q of
                    Some t \<Rightarrow> filter (\<lambda>g. userId g = Some uid \<and> type' g = Some t) s
                  | None \<Rightarrow> filter (\<lambda>g. userId g = Some uid) s);
               results1 =
                 (case q_syncedOnly q of
                    Some syncedOnly \<Rightarrow>
                      filter (\<lambda>item. synced item = Some syncedOnly) results0
                  | None \<Rightarrow> results0);
               results2 =
                 (if q_favoritesOnly q = Some True
                  then filter (\<lambda>item. favorite item = Some True) results1
                  else results1);
               results3 = arraySort (compareFn (q_sortBy q) (q_sortOrder q)) results2
           in Inr (slice (q_offset q) (q_offset q + q_limit q) results3)))"

subsection \<open>Export\<close>

text \<open>
  \<open>exportData\<close> returns the text \<open>JSON.stringify(generations, null, 2)\<close>. The text is
  given by the array of objects that \<open>JSON.parse\<close> reads from it, \<open>JSON_parse\<close> being that
  reading. \<open>toJSON\<close> is what the text keeps of a record: a \<open>Date\<close> is written as its ISO
  string, a \<open>Blob\<close> as the empty object \<open>{}\<close>, a key whose value is \<open>undefined\<close> is left
  out (and reads as \<open>undefined\<close> again), strings, whole numbers, booleans and arrays of
  strings are written as they are.
\<close>

definition dateToJSON :: "date_value option \<Rightarrow> date_value option" where
  "dateToJSON d =
     (case d of
        None \<Rightarrow> None
      | Some (DateObj t) \<Rightarrow> Some (IsoString t)
      | Some (IsoString t) \<Rightarrow> Some (IsoString t))"

definition resultToJSON :: "result option \<Rightarrow> result option" where
  "resultToJSON r =
     (case r of
        None \<Rightarrow> None
      | Some (Text t) \<Rightarrow> Some (Text t)
      | Some (Blob b) \<Rightarrow> Some EmptyObject
      | Some EmptyObject \<Rightarrow> Some EmptyObject)"

definition toJSON :: "generation \<Rightarrow> generation" where
  "toJSON g =
     g\<lparr>result := resultToJSON (result g), createdAt := dateToJSON (createdAt g),
       updatedAt := dateToJSON (updatedAt g),
       lastSyncAttempt := dateToJSON (lastSyncAttempt g)\<rparr>"

datatype json_text = JsonText "generation list"

fun JSON_parse :: "json_text \<Rightarrow> generation list" where
  "JSON_parse (JsonText objects) = objects"

definition JSON_stringify :: "generation list \<Rightarrow> json_text" where
  "JSON_stringify generations = JsonText (map toJSON generations)"

definition exportData ::
  "array_sort \<Rightarrow> store option \<Rightarrow> string \<Rightarrow> manager \<Rightarrow> error + json_text" where
  "exportData arraySort engine uid m =
     (case getGenerations arraySort engine uid (Some (no_options\<lparr>o_limit := Some 10000\<rparr>)) m of
        Inl e \<Rightarrow> Inl e
      | Inr generations \<Rightarrow> Inr (JSON_stringify generations))"

section \<open>The hooks over the store (hooks/use-indexdb.ts, in src/hooks/use-pro-modal.tsx)\<close>

text \<open>
  The mutation \<open>saveGeneration\<close> of \<open>useIndexDB\<close>. \<open>user\<close> is \<open>user?.id\<close>; the empty
  string is as falsy as \<open>undefined\<close>. The record is saved under the id of the user.
\<close>

definition useIndexDB_saveGeneration ::
  "string option \<Rightarrow> store option \<Rightarrow> int \<Rightarrow> string \<Rightarrow> int \<Rightarrow> new_generation \<Rightarrow> manager
     \<Rightarrow> error + (string \<times> manager)" where
  "useIndexDB_saveGeneration user engine stamp rnd now data m =
     (case user of
        None \<Rightarrow> Inl NotAuthenticated
      | Some uid \<Rightarrow>
          if uid = [] then Inl NotAuthenticated
          else saveGeneration engine stamp rnd now (data\<lparr>n_userId := uid\<rparr>) m)"

subsection \<open>The sync pass\<close>

text \<open>
  The world of a pass: the manager and the requests that reached the remote endpoint,
  oldest first. The environment of a pass: \<open>blobToBase64\<close> (\<open>None\<close> when the reader
  fails), \<open>post\<close> (whether \<open>axios.post\<close> of a payload succeeds) and \<open>clock\<close>, the two
  readings of the clock that \<open>markAsSynced\<close> makes for the \<open>k\<close>-th item of the pass.
\<close>

record sync_world =
  mgr :: manager
  posted :: "generation list"

record sync_env =
  blobToBase64 :: "nat list \<Rightarrow> string option"
  post :: "generation \<Rightarrow> bool"
  clock :: "nat \<Rightarrow> int \<times> int"

text \<open>
  The payload \<open>{...item, result: resultData}\<close>: the item, with a \<open>Blob\<close> result turned
  into its data URL; \<open>None\<close> when that conversion fails.
\<close>

definition payload :: "sync_env \<Rightarrow> generation \<Rightarrow> generation option" where
  "payload env item =
     (case result item of
        Some (Blob b) \<Rightarrow>
          (case blobToBase64 env b of
             None \<Rightarrow> None
           | Some encoded \<Rightarrow> Some (item\<lparr>result := Some (Text encoded)\<rparr>))
      | _ \<Rightarrow> Some item)"

text \<open>
  The body of the \<open>for\<close> loop over \<open>unsynced\<close>, from the \<open>k\<close>-th item on. An error ends
  the loop: the \<open>catch\<close> logs it and throws it again.
\<close>

fun syncItems ::
  "sync_env \<Rightarrow> store option \<Rightarrow> nat \<Rightarrow> generation list \<Rightarrow> sync_world
     \<Rightarrow> error option \<times> sync_world" where
  "syncItems env engine k [] w = (None, w)"
| "syncItems env engine k (item # rest) w =
     (case payload env item of
        None \<Rightarrow> (Some ConversionFailed, w)
      | Some request \<Rightarrow>
          (let w1 = w\<lparr>posted := posted w @ [request]\<rparr>
           in if \<not> post env request then (Some PushFailed, w1)
              else (case markAsSynced engine (fst (clock env k)) (snd (clock env k))
                           (id' item) (mgr w1) of
                      Inl e \<Rightarrow> (Some e, w1)
                    | Inr m' \<Rightarrow> syncItems env engine (Suc k) rest (w1\<lparr>mgr := m'\<rparr>))))"

text \<open>
  The mutation function of \<open>syncToServer\<close>: the lookup of the unsynced records, then the
  loop. An error of the lookup ends the pass before the loop.
\<close>

definition syncToServer ::
  "sync_env \<Rightarrow> store option \<Rightarrow> sync_world \<Rightarrow> (error + nat) \<times> sync_world" where
  "syncToServer env engine w =
     (case getUnsyncedGenerations engine (mgr w) of
        Inl e \<Rightarrow> (Inl e, w)
      | Inr unsynced \<Rightarrow>
          (case syncItems env engine 0 unsynced w of
             (Some e, w') \<Rightarrow> (Inl e, w')
           | (None, w') \<Rightarrow> (Inr (length unsynced), w')))"

section \<open>The quota facade (hooks/use-subscription.ts, in src/unnamed/part_000)\<close>

text \<open>
  Of \<open>UserSubscription\<close> and \<open>SubscriptionPlan\<close>, declared outside these sources, the
  hooks read the fields below. \<open>FeatureLimits\<close> and \<open>UsageData\<close> are objects read by
  feature name: maps, a key that is not there reading as \<open>undefined\<close>.
\<close>

record subscription =
  plan :: string
  status :: string

datatype limit = Unlimited | Limit int

record subscription_plan =
  plan_id :: string
  limits :: "(string \<rightharpoonup> limit) option"

datatype quota = QuotaUnlimited | Quota int | QuotaNaN

text \<open>
  The tables of \<open>hasFeatureAccess\<close> are object literals. Reading \<open>table[feature]\<close> gives
  the value of an own key and, for a name that the table does not have, what the object
  inherits under that name from \<open>Object.prototype\<close>: a function, or for \<open>__proto__\<close> the
  prototype itself, each of them truthy. Any other name reads as \<open>undefined\<close>.
\<close>

datatype js_value = Boolean bool | Inherited string

definition truthy :: "js_value \<Rightarrow> bool" where
  "truthy v = (case v of Boolean b \<Rightarrow> b | Inherited name \<Rightarrow> True)"

definition objectPrototype :: "string list" where
  "objectPrototype =
     [''constructor'', ''hasOwnProperty'', ''isPrototypeOf'', ''propertyIsEnumerable'',
      ''toLocaleString'', ''toString'', ''valueOf'', ''__defineGetter__'',
      ''__defineSetter__'', ''__lookupGetter__'', ''__lookupSetter__'', ''__proto__'']"

definition readKey :: "(string \<times> bool) list \<Rightarrow> string \<Rightarrow> js_value option" where
  "readKey table feature =
     (case map_of table feature of
        Some b \<Rightarrow> Some (Boolean b)
      | None \<Rightarrow> if feature \<in> set objectPrototype then Some (Inherited feature) else None)"

definition freeLimits :: "(string \<times> bool) list" where
  "freeLimits =
     [(''imageGeneration'', True), (''videoGeneration'', False), (''audioGeneration'', False),
      (''codeGeneration'', True), (''highResolution'', False), (''apiAccess'', False),
      (''prioritySupport'', False), (''customModels'', False), (''batchProcessing'', False)]"

definition basicLimits :: "(string \<times> bool) list" where
  "basicLimits =
     [(''imageGeneration'', True), (''videoGeneration'', True), (''audioGeneration'', True),
      (''codeGeneration'', True), (''highResolution'', True), (''apiAccess'', False),
      (''prioritySupport'', False), (''customModels'', False), (''batchProcessing'', True)]"

text \<open>\<open>v || false\<close>: \<open>v\<close> when it is truthy, \<open>false\<close> otherwise.\<close>

definition orFalse :: "js_value option \<Rightarrow> js_value" where
  "orFalse v =
     (case v of
        None \<Rightarrow> Boolean False
      | Some w \<Rightarrow> if truthy w then w else Boolean False)"

text \<open>
  \<open>hasFeatureAccess\<close>, with the value it returns at run time: the declared type is
  \<open>boolean\<close>, a caller tests the value for truth.
\<close>

definition hasFeatureAccess :: "subscription option \<Rightarrow> string \<Rightarrow> js_value" where
  "hasFeatureAccess sub feature =
     (case sub of
        None \<Rightarrow> Boolean False
      | Some subscription \<Rightarrow>
          if plan subscription = ''free'' then orFalse (readKey freeLimits feature)
          else if plan subscription = ''basic'' then orFalse (readKey basicLimits feature)
          else if plan subscription = ''pro'' then Boolean True
          else Boolean False)"

text \<open>
  \<open>currentPlan?.limits\<close>: \<open>undefined\<close> when there is no current plan or it has no limits.
\<close>

definition planLimits :: "subscription_plan option \<Rightarrow> (string \<rightharpoonup> limit) option" where
  "planLimits currentPlan = (case currentPlan of None \<Rightarrow> None | Some p \<Rightarrow> limits p)"

definition hasReachedLimit ::
  "(string \<rightharpoonup> int) option \<Rightarrow> subscription_plan option \<Rightarrow> string \<Rightarrow> bool" where
  "hasReachedLimit usage currentPlan feature =
     (case (usage, planLimits currentPlan) of
        (Some u, Some l) \<Rightarrow>
          (let current = or0 (u feature)
           in case l feature of
                Some (Limit n) \<Rightarrow> current \<ge> n
              | _ \<Rightarrow> False)
      | _ \<Rightarrow> False)"

definition getRemainingQuota ::
  "(string \<rightharpoonup> int) option \<Rightarrow> subscription_plan option \<Rightarrow> string \<Rightarrow> quota" where
  "getRemainingQuota usage currentPlan feature =
     (case (usage, planLimits currentPlan) of
        (Some u, Some l) \<Rightarrow>
          (case l feature of
             Some Unlimited \<Rightarrow> QuotaUnlimited
           | Some (Limit n) \<Rightarrow> Quota (max 0 (n - or0 (u feature)))
           | None \<Rightarrow> QuotaNaN)
      | _ \<Rightarrow> Quota 0)"

section \<open>Operations on a stored record\<close>

text \<open>
  The writes a client can make to the store, and the sync pass of the coordinator.
  \<open>perform\<close> runs one of them and gives the manager it leaves behind: the manager as it
  was when the call throws before writing, and for a pass the manager at the point where
  the pass ended.
\<close>

datatype operation =
    Update string updates
  | MarkSynced string
  | MarkSyncFailed string
  | ToggleFavorite string
  | AddTags string "string list"
  | Import "generation list"
  | SyncPass sync_env

fun perform :: "store option \<Rightarrow> int \<Rightarrow> int \<Rightarrow> operation \<Rightarrow> manager \<Rightarrow> manager" where
  "perform engine attempt now (Update i u) m =
     (case updateGeneration engine now i u m of Inl e \<Rightarrow> m | Inr m' \<Rightarrow> m')"
| "perform engine attempt now (MarkSynced i) m =
     (case markAsSynced engine attempt now i m of Inl e \<Rightarrow> m | Inr m' \<Rightarrow> m')"
| "perform engine attempt now (MarkSyncFailed i) m =
     (case markSyncFailed engine attempt now i m of Inl e \<Rightarrow> m | Inr m' \<Rightarrow> m')"
| "perform engine attempt now (ToggleFavorite i) m =
     (case toggleFavorite engine now i m of Inl e \<Rightarrow> m | Inr (b, m') \<Rightarrow> m')"
| "perform engine attempt now (AddTags i ts) m =
     (case addTags engine now i ts m of Inl e \<Rightarrow> m | Inr m' \<Rightarrow> m')"
| "perform engine attempt now (Import data) m =
     (case importData engine data m of Inl e \<Rightarrow> m | Inr (n, m') \<Rightarrow> m')"
| "perform engine attempt now (SyncPass env) m =
     mgr (snd (syncToServer env engine \<lparr>mgr = m, posted = []\<rparr>))"

text \<open>
  What the store holds of the record \<open>i\<close>: whether \<open>P\<close> holds of it, whether its
  \<open>synced\<close> is \<open>true\<close>, and its \<open>syncAttempts\<close> (\<open>undefined\<close> counting as \<open>0\<close>, as
  \<open>markSyncFailed\<close> and \<open>getStorageStats\<close> read it).
\<close>

definition record_has :: "(generation \<Rightarrow> bool) \<Rightarrow> store option \<Rightarrow> string \<Rightarrow> manager \<Rightarrow> bool" where
  "record_has P engine i m =
     (case opened engine m of
        Inl e \<Rightarrow> False
      | Inr s \<Rightarrow> (case store_get i s of None \<Rightarrow> False | Some g \<Rightarrow> P g))"

definition synced_in :: "store option \<Rightarrow> string \<Rightarrow> manager \<Rightarrow> bool" where
  "synced_in engine i m =
     (case opened engine m of
        Inl e \<Rightarrow> False
      | Inr s \<Rightarrow> (case store_get i s of None \<Rightarrow> False | Some g \<Rightarrow> synced g = Some True))"


text \<open>
  The key under which \<open>updateGeneration j u\<close> writes: \<open>j\<close>, or what the fields \<open>u\<close> hold
  under \<open>id\<close>.
\<close>

definition update_key :: "string \<Rightarrow> updates \<Rightarrow> string option" where
  "update_key j u = (case u_id u of None \<Rightarrow> Some j | Some v \<Rightarrow> v)"

text \<open>
  The writes that bring a value of \<open>synced\<close> of their own to the record \<open>i\<close>. An update
  does when it writes under the key \<open>i\<close> and either its fields hold \<open>synced\<close> with a
  value other than \<open>true\<close> (\<open>false\<close> or \<open>undefined\<close>), or it updates another record and
  its fields do not hold \<open>synced: true\<close>, so that the value of the other record, or the
  value in the fields, is stored under \<open>i\<close>. An import does when the last of its items
  with the id \<open>i\<close> has a \<open>synced\<close> other than \<open>true\<close>.
\<close>

fun may_reset_synced :: "string \<Rightarrow> operation \<Rightarrow> bool" where
  "may_reset_synced i (Update j u) =
     (update_key j u = Some i \<and> u_synced u \<noteq> Some (Some True) \<and>
      \<not> (j = i \<and> u_synced u = None))"
| "may_reset_synced i (Import data) =
     (case rev (filter (\<lambda>d. id' d = i) data) of
        [] \<Rightarrow> False
      | d # earlier \<Rightarrow> synced d \<noteq> Some True)"
| "may_reset_synced i op = False"


section \<open>The query as the specification words it\<close>

text \<open>
  The specification of \<open>query(userId, filters)\<close>, each of the filters being optional: of
  the records of the user, keep those that pass all filters (\<open>type\<close>, \<open>syncedOnly\<close>,
  \<open>favoritesOnly\<close>); sort them by the time in the requested field (\<open>createdAt\<close> if none
  is requested), descending unless ascending is requested, records with equal times
  staying in the order of the store; drop \<open>offset\<close> records (none by default) and return
  at most \<open>limit\<close> (100 by default) of the rest. A filter that is not given passes every
  record; \<open>type\<close> and \<open>syncedOnly\<close> pass the records whose field has the value given,
  \<open>favoritesOnly\<close> passes the favourites when it is true.
\<close>

definition given :: "(get_options \<Rightarrow> 'a option) \<Rightarrow> get_options option \<Rightarrow> 'a option" where
  "given field filters = (case filters of None \<Rightarrow> None | Some f \<Rightarrow> field f)"

definition spec_matches :: "string \<Rightarrow> get_options option \<Rightarrow> generation \<Rightarrow> bool" where
  "spec_matches uid filters g =
     (userId g = Some uid \<and>
      (case given o_type filters of None \<Rightarrow> True | Some t \<Rightarrow> type' g = Some t) \<and>
      (case given o_syncedOnly filters of None \<Rightarrow> True | Some b \<Rightarrow> synced g = Some b) \<and>
      (case given o_favoritesOnly filters of
         Some True \<Rightarrow> favorite g = Some True
       | _ \<Rightarrow> True))"

definition spec_field :: "get_options option \<Rightarrow> generation \<Rightarrow> date_value option" where
  "spec_field filters g =
     (case given o_sortBy filters of
        Some UpdatedAt \<Rightarrow> updatedAt g
      | _ \<Rightarrow> createdAt g)"

definition time_of :: "date_value option \<Rightarrow> int" where
  "time_of d = (case d of None \<Rightarrow> 0 | Some (DateObj t) \<Rightarrow> t | Some (IsoString t) \<Rightarrow> t)"

definition spec_rank :: "get_options option \<Rightarrow> generation \<Rightarrow> int" where
  "spec_rank filters g =
     (case given o_sortOrder filters of
        Some Asc \<Rightarrow> time_of (spec_field filters g)
      | _ \<Rightarrow> - time_of (spec_field filters g))"

definition spec_limit :: "get_options option \<Rightarrow> int" where
  "spec_limit filters = (case given o_limit filters of None \<Rightarrow> 100 | Some n \<Rightarrow> n)"

definition spec_offset :: "get_options option \<Rightarrow> int" where
  "spec_offset filters = (case given o_offset filters of None \<Rightarrow> 0 | Some n \<Rightarrow> n)"

definition query_spec :: "string \<Rightarrow> get_options option \<Rightarrow> store \<Rightarrow> generation list" where
  "query_spec uid filters s =
     take (nat (spec_limit filters))
       (drop (nat (spec_offset filters))
          (sort_key (spec_rank filters) (filter (spec_matches uid filters) s)))"

section \<open>Export and import\<close>

text \<open>
  \<open>recordsOf\<close>: the records of a user in the store. \<open>restored\<close>: the manager of a fresh,
  empty database after the text that \<open>exportData\<close> returns has been parsed and passed to
  \<open>importData\<close>.
\<close>

definition recordsOf :: "string \<Rightarrow> store \<Rightarrow> generation list" where
  "recordsOf uid s = filter (\<lambda>g. userId g = Some uid) s"

definition restored :: "array_sort \<Rightarrow> store option \<Rightarrow> string \<Rightarrow> manager \<Rightarrow> error + manager" where
  "restored arraySort engine uid m =
     (case exportData arraySort engine uid m of
        Inl e \<Rightarrow> Inl e
      | Inr exported \<Rightarrow>
          (case importData None (JSON_parse exported) \<lparr>db = Some []\<rparr> of
             Inl e \<Rightarrow> Inl e
           | Inr (n, m') \<Rightarrow> Inr m'))"

section \<open>Sample data\<close>

text \<open>A record as \<open>saveGeneration\<close> writes it, and an argument of \<open>saveGeneration\<close>.\<close>

definition sample :: "string \<Rightarrow> string \<Rightarrow> int \<Rightarrow> generation" where
  "sample i u t = \<lparr> id' = i, userId = Some u, type' = Some Image, prompt = Some ''a cat'',
     result = Some (Text ''cat.png''), model = None, metadata = None,
     createdAt = Some (DateObj t), updatedAt = Some (DateObj t), synced = Some False,
     syncAttempts = Some 0, lastSyncAttempt = None, tags = Some [],
     favorite = Some False \<rparr>"

definition new_sample :: new_generation where
  "new_sample = \<lparr> n_userId = [], n_type = Code, n_prompt = ''sort a list'',
     n_result = Text ''xs.sort()'', n_model = Some ''gpt'', n_metadata = None,
     n_updatedAt = None, n_syncAttempts = None, n_lastSyncAttempt = None,
     n_tags = None, n_favorite = None \<rparr>"

text \<open>
  An environment of a pass in which the endpoint refuses the records whose id is in
  \<open>bad\<close> and accepts the others.
\<close>

definition sample_env :: "string list \<Rightarrow> sync_env" where
  "sample_env bad =
     \<lparr> blobToBase64 = (\<lambda>b. Some ''data:image/png;base64,AAAA''),
       post = (\<lambda>request. id' request \<notin> set bad),
       clock = (\<lambda>k. (100 + 2 * int k, 101 + 2 * int k)) \<rparr>"

text \<open>A plan with a finite and an unlimited quota, and a usage that has reached the first.\<close>

definition sample_plan :: subscription_plan where
  "sample_plan =
     \<lparr> plan_id = ''free'',
       limits = Some [''imageGeneration'' \<mapsto> Limit 5, ''codeGeneration'' \<mapsto> Unlimited] \<rparr>"

definition sample_usage :: "string \<rightharpoonup> int" where
  "sample_usage = [''imageGeneration'' \<mapsto> 5]"

section \<open>Reading an id back\<close>

text \<open>
  The number that a string of decimal digits writes; \<open>digit_of\<close> is the place of a
  character among the digits.
\<close>

definition digit_of :: "char \<Rightarrow> nat" where
  "digit_of c = length (takeWhile (\<lambda>d. d \<noteq> c) ''0123456789'')"

definition number :: "string \<Rightarrow> nat" where
  "number cs = foldl (\<lambda>a c. 10 * a + digit_of c) 0 cs"

section \<open>A sample store\<close>



definition sample_file :: generation where
  "sample_file = (sample ''gen_2_b'' ''user_1'' 20)\<lparr>result := Some (Blob [137, 80, 78, 71])\<rparr>"


section \<open>Properties of the store\<close>

subsection \<open>The object store and the prologue\<close>

lemma opened_db: "db m = Some s \<Longrightarrow> opened engine m = Inr s"
  by (simp add: opened_def initialize_def)

lemma opened_make [simp]: "opened engine \<lparr>db = Some s\<rparr> = Inr s"
  by (simp add: opened_db)

lemma opened_update [simp]: "opened engine (m\<lparr>db := Some s\<rparr>) = Inr s"
  by (simp add: opened_db)

lemma store_get_put:
  "store_get k (store_put g s) = (if k = id' g then Some g else store_get k s)"
  by (induction s) auto

lemma store_get_id: "store_get k s = Some g \<Longrightarrow> id' g = k"
  by (induction s) (auto split: if_splits)

lemma store_get_mem: "store_get k s = Some g \<Longrightarrow> g \<in> set s"
  by (induction s) (auto split: if_splits)

lemma merged_id_update_key: "id' h = j \<Longrightarrow> merged_id h u = update_key j u"
  by (cases "u_id u") (simp_all add: merged_id_def update_key_def)

lemma id_merge [simp]: "id' (merge h u now k) = k"
  by (simp add: merge_def)

lemma updateGeneration_opened:
  "opened engine m = Inr s \<Longrightarrow>
   updateGeneration engine now i u m =
     (case store_get i s of
        None \<Rightarrow> Inl (NotFound i)
      | Some g \<Rightarrow>
          (case update_key i u of
             None \<Rightarrow> Inl DataError
           | Some k \<Rightarrow> Inr \<lparr>db = Some (store_put (merge g u now k) s)\<rparr>))"
  by (auto simp: updateGeneration_def merged_id_update_key dest: store_get_id
      split: option.splits)

lemma update_key_no_id: "u_id u = None \<Longrightarrow> update_key j u = Some j"
  by (simp add: update_key_def)

lemma merge_synced:
  "merge g (no_updates\<lparr>u_synced := Some (Some True),
              u_lastSyncAttempt := Some (Some a)\<rparr>) n (id' g) =
   g\<lparr>synced := Some True, lastSyncAttempt := Some a, updatedAt := Some (DateObj n)\<rparr>"
  by (simp add: merge_def no_updates_def)

lemma markAsSynced_opened:
  "opened engine m = Inr s \<Longrightarrow>
   markAsSynced engine a n i m =
     (case store_get i s of
        None \<Rightarrow> Inl (NotFound i)
      | Some g \<Rightarrow>
          Inr \<lparr>db = Some (store_put (g\<lparr>synced := Some True,
                                      lastSyncAttempt := Some (DateObj a),
                                      updatedAt := Some (DateObj n)\<rparr>) s)\<rparr>)"
proof (cases "store_get i s")
  case None
  assume "opened engine m = Inr s"
  then show ?thesis
    using None by (simp add: markAsSynced_def updateGeneration_opened)
next
  case (Some g)
  assume o: "opened engine m = Inr s"
  have i: "id' g = i" using Some by (rule store_get_id)
  have "merge g (no_updates\<lparr>u_synced := Some (Some True),
          u_lastSyncAttempt := Some (Some (DateObj a))\<rparr>) n i =
        g\<lparr>synced := Some True, lastSyncAttempt := Some (DateObj a),
          updatedAt := Some (DateObj n)\<rparr>"
    using merge_synced [of g "DateObj a" n] i by simp
  then show ?thesis
    using o Some
    by (simp add: markAsSynced_def updateGeneration_opened update_key_def no_updates_def)
qed

subsection \<open>The id of a new record\<close>

lemma digit_of_nth: "d < 10 \<Longrightarrow> digit_of (''0123456789'' ! d) = d"
proof -
  assume "d < 10"
  then consider "d = 0" | "d = 1" | "d = 2" | "d = 3" | "d = 4" | "d = 5" | "d = 6"
    | "d = 7" | "d = 8" | "d = 9"
    by atomize_elim arith
  then show ?thesis
    by cases (simp_all add: digit_of_def)
qed

lemma number_snoc: "number (cs @ [c]) = 10 * number cs + digit_of c"
  by (simp add: number_def)

lemma number_digits: "number (digits n) = n"
proof (induction n rule: digits.induct)
  case (1 n)
  show ?case
  proof (cases "n < 10")
    case True
    then show ?thesis
      using number_snoc [of "[]" "''0123456789'' ! n"]
      by (simp add: digits.simps [of n] digit_of_nth number_def)
  next
    case False
    have "number (digits (n div 10)) = n div 10"
      using 1 False by simp
    then show ?thesis
      using False by (simp add: digits.simps [of n] number_snoc digit_of_nth)
  qed
qed

lemma digits_inject: "digits a = digits b \<Longrightarrow> a = b"
  by (metis number_digits)

lemma nth_digit_mem: "d < 10 \<Longrightarrow> ''0123456789'' ! d \<in> set ''0123456789''"
  by (rule nth_mem) simp

lemma set_digits: "set (digits n) \<subseteq> set ''0123456789''"
proof (induction n rule: digits.induct)
  case (1 n)
  show ?case
  proof (cases "n < 10")
    case True
    then show ?thesis
      using nth_digit_mem [of n] by (simp add: digits.simps [of n])
  next
    case False
    have "set (digits (n div 10)) \<subseteq> set ''0123456789''"
      using 1 False by simp
    moreover have "''0123456789'' ! (n mod 10) \<in> set ''0123456789''"
      by (rule nth_digit_mem) simp
    ultimately show ?thesis
      using False by (simp add: digits.simps [of n])
  qed
qed

lemma digits_not_empty: "digits n \<noteq> []"
  by (simp add: digits.simps [of n])

lemma no_sign_in_digits: "CHR ''-'' \<notin> set (digits n)" and
  no_underscore_in_digits: "CHR ''_'' \<notin> set (digits n)"
  using set_digits [of n] by auto

lemma decimal_inject: "decimal i = decimal j \<Longrightarrow> i = j"
proof -
  assume eq: "decimal i = decimal j"
  have mixed: "CHR ''-'' # digits a \<noteq> digits b" for a b
  proof
    assume "CHR ''-'' # digits a = digits b"
    then have "CHR ''-'' \<in> set (digits b)"
      by (metis list.set_intros(1))
    then show False
      using no_sign_in_digits by simp
  qed
  show ?thesis
  proof (cases "i < 0")
    case True
    show ?thesis
    proof (cases "j < 0")
      case j: True
      have "digits (nat (- i)) = digits (nat (- j))"
        using eq True j by (simp add: decimal_def)
      then have "nat (- i) = nat (- j)" by (rule digits_inject)
      then show ?thesis using True j by simp
    next
      case False
      then show ?thesis
        using eq True mixed [of "nat (- i)" "nat j"] by (simp add: decimal_def)
    qed
  next
    case False
    show ?thesis
    proof (cases "j < 0")
      case True
      then show ?thesis
        using eq False mixed [of "nat (- j)" "nat i"] by (simp add: decimal_def)
    next
      case j: False
      have "digits (nat i) = digits (nat j)"
        using eq False j by (simp add: decimal_def)
      then have "nat i = nat j" by (rule digits_inject)
      then show ?thesis using False j by simp
    qed
  qed
qed

lemma no_underscore_in_decimal: "CHR ''_'' \<notin> set (decimal i)"
  by (simp add: decimal_def no_underscore_in_digits)

lemma split_at_first:
  "x \<notin> set a \<Longrightarrow> x \<notin> set b \<Longrightarrow> a @ x # r = b @ x # r' \<Longrightarrow> a = b \<and> r = r'"
proof (induction a arbitrary: b)
  case Nil
  then show ?case by (cases b) auto
next
  case (Cons y ys)
  then show ?case by (cases b) auto
qed

lemma generationId_inject:
  "(generationId stamp' rnd' = generationId stamp rnd) = (stamp' = stamp \<and> rnd' = rnd)"
proof
  assume "generationId stamp' rnd' = generationId stamp rnd"
  then have eq: "decimal stamp' @ CHR ''_'' # rnd' = decimal stamp @ CHR ''_'' # rnd"
    by (simp add: generationId_def)
  have a: "CHR ''_'' \<notin> set (decimal stamp')" and b: "CHR ''_'' \<notin> set (decimal stamp)"
    by (rule no_underscore_in_decimal)+
  have "decimal stamp' = decimal stamp \<and> rnd' = rnd"
    using a b eq by (rule split_at_first)
  then show "stamp' = stamp \<and> rnd' = rnd"
    using decimal_inject [of stamp' stamp] by simp
next
  assume "stamp' = stamp \<and> rnd' = rnd"
  then show "generationId stamp' rnd' = generationId stamp rnd" by simp
qed

lemma generationId_sample: "generationId 1700 ''k3x9'' = ''gen_1700_k3x9''"
proof -
  have "digits 1700 = ''1700''"
    by (simp add: digits.simps)
  then show ?thesis
    by (simp add: generationId_def decimal_def)
qed

subsection \<open>Saving and reading back\<close>

text \<open>
  Claim C2, as the code has it. With a user bound and the database open, the
  \<open>saveGeneration\<close> of the hook succeeds. The id it returns is made of the clock and the
  random digits, so that it differs from every id made at another time or with other
  digits; it is not looked up in the store. The record is stamped with the time of
  creation and stored under the id with \<open>synced = false\<close>, \<open>syncAttempts = 0\<close> and
  \<open>favorite = false\<close>, in the place of a record that had the id, every record with
  another id staying as it was. \<open>getGenerationById\<close> on the id then finds the new record,
  with the type, prompt, result, model and metadata that were passed in.
\<close>

theorem save_then_getGenerationById:
  assumes "user = Some uid" and "uid \<noteq> []" and "opened engine m = Inr s"
  shows "\<exists>s' g.
           useIndexDB_saveGeneration user engine stamp rnd now data m
             = Inr (generationId stamp rnd, \<lparr>db = Some s'\<rparr>) \<and>
           getGenerationById engine (generationId stamp rnd) \<lparr>db = Some s'\<rparr> = Inr (Some g) \<and>
           id' g = generationId stamp rnd \<and> createdAt g = Some (DateObj now) \<and>
           synced g = Some False \<and> syncAttempts g = Some 0 \<and> favorite g = Some False \<and>
           userId g = Some uid \<and> type' g = Some (n_type data) \<and>
           prompt g = Some (n_prompt data) \<and> result g = Some (n_result data) \<and>
           model g = n_model data \<and> metadata g = n_metadata data \<and>
           (\<forall>k. k \<noteq> generationId stamp rnd \<longrightarrow> store_get k s' = store_get k s) \<and>
           (\<forall>stamp' rnd'. (generationId stamp' rnd' = generationId stamp rnd)
                           = (stamp' = stamp \<and> rnd' = rnd))"
  using assms generationId_inject [of _ _ stamp rnd]
  by (simp add: useIndexDB_saveGeneration_def saveGeneration_def getGenerationById_def
      Let_def store_get_put)

theorem save_then_getGenerationById_witness:
  "\<exists>s' g.
     useIndexDB_saveGeneration (Some ''user_1'') None 1700 ''k3x9'' 1701 new_sample
       \<lparr>db = Some [sample ''gen_1600_abcd'' ''user_2'' 1600]\<rparr>
       = Inr (''gen_1700_k3x9'', \<lparr>db = Some s'\<rparr>) \<and>
     getGenerationById None ''gen_1700_k3x9'' \<lparr>db = Some s'\<rparr> = Inr (Some g) \<and>
     createdAt g = Some (DateObj 1701) \<and>
     synced g = Some False \<and> syncAttempts g = Some 0 \<and> favorite g = Some False \<and>
     userId g = Some ''user_1'' \<and> type' g = Some Code \<and> prompt g = Some ''sort a list'' \<and>
     result g = Some (Text ''xs.sort()'') \<and> model g = Some ''gpt'' \<and> metadata g = None \<and>
     store_get ''gen_1600_abcd'' s' = Some (sample ''gen_1600_abcd'' ''user_2'' 1600)"
proof -
  let ?s = "[sample ''gen_1600_abcd'' ''user_2'' 1600]"
  have h1: "Some ''user_1'' = Some ''user_1''" by simp
  have h2: "''user_1'' \<noteq> []" by simp
  have h3: "opened None \<lparr>db = Some ?s\<rparr> = Inr ?s" by simp
  have old: "store_get ''gen_1600_abcd'' ?s = Some (sample ''gen_1600_abcd'' ''user_2'' 1600)"
    by (simp add: sample_def)
  have ne: "''gen_1600_abcd'' \<noteq> ''gen_1700_k3x9''" by simp
  from save_then_getGenerationById [OF h1 h2 h3, of 1700 "''k3x9''" 1701 new_sample]
  obtain s' g where
    a: "useIndexDB_saveGeneration (Some ''user_1'') None 1700 ''k3x9'' 1701 new_sample
          \<lparr>db = Some ?s\<rparr> = Inr (generationId 1700 ''k3x9'', \<lparr>db = Some s'\<rparr>)"
    and b: "getGenerationById None (generationId 1700 ''k3x9'') \<lparr>db = Some s'\<rparr> = Inr (Some g)"
    and c: "createdAt g = Some (DateObj 1701)" "synced g = Some False"
      "syncAttempts g = Some 0" "favorite g = Some False" "userId g = Some ''user_1''"
      "type' g = Some (n_type new_sample)" "prompt g = Some (n_prompt new_sample)"
      "result g = Some (n_result new_sample)" "model g = n_model new_sample"
      "metadata g = n_metadata new_sample"
    and d: "\<forall>k. k \<noteq> generationId 1700 ''k3x9'' \<longrightarrow> store_get k s' = store_get k ?s"
    by blast
  have "store_get ''gen_1600_abcd'' s' = store_get ''gen_1600_abcd'' ?s"
    using d ne by (simp add: generationId_sample)
  then show ?thesis
    using a b c old by (auto simp: generationId_sample new_sample_def)
qed

text \<open>
  The claim as it was stated, that the id is fresh, fails when the clock and the random
  digits are those of a record in the store: the save of one user then takes the place
  of the record of another, which is gone.
\<close>

theorem save_replaces_record_with_same_id:
  "store_get ''gen_1700_k3x9'' [sample ''gen_1700_k3x9'' ''user_2'' 1700]
     = Some (sample ''gen_1700_k3x9'' ''user_2'' 1700) \<and>
   useIndexDB_saveGeneration (Some ''user_1'') None 1700 ''k3x9'' 1700 new_sample
       \<lparr>db = Some [sample ''gen_1700_k3x9'' ''user_2'' 1700]\<rparr>
     = Inr (''gen_1700_k3x9'',
            \<lparr>db = Some [\<lparr> id' = ''gen_1700_k3x9'', userId = Some ''user_1'',
                          type' = Some Code, prompt = Some ''sort a list'',
                          result = Some (Text ''xs.sort()''), model = Some ''gpt'',
                          metadata = None, createdAt = Some (DateObj 1700),
                          updatedAt = Some (DateObj 1700), synced = Some False,
                          syncAttempts = Some 0, lastSyncAttempt = None, tags = Some [],
                          favorite = Some False \<rparr>]\<rparr>) \<and>
   userId (sample ''gen_1700_k3x9'' ''user_2'' 1700) = Some ''user_2''"
  by (simp add: useIndexDB_saveGeneration_def saveGeneration_def Let_def generationId_sample
      sample_def new_sample_def)

subsection \<open>Marking a record as synced\<close>

text \<open>
  Claim C5, as the code has it. \<open>markAsSynced\<close> on a record that is already synced
  succeeds and changes two fields of it, \<open>lastSyncAttempt\<close> and \<open>updatedAt\<close> (which
  \<open>updateGeneration\<close> sets on every call); \<open>synced\<close> stays true, every other field and
  every other record stay as they were.
\<close>

theorem markAsSynced_again:
  assumes "opened engine m = Inr s" and "store_get i s = Some g" and "synced g = Some True"
  shows "\<exists>s'. markAsSynced engine attempt now i m = Inr \<lparr>db = Some s'\<rparr> \<and>
           store_get i s' = Some (g\<lparr>lastSyncAttempt := Some (DateObj attempt),
                                    updatedAt := Some (DateObj now)\<rparr>) \<and>
           (\<forall>k. k \<noteq> i \<longrightarrow> store_get k s' = store_get k s)"
proof -
  have "id' g = i"
    using assms(2) by (rule store_get_id)
  moreover have "g\<lparr>synced := Some True\<rparr> = g"
    using assms(3) by simp
  ultimately show ?thesis
    using assms(1,2) by (simp add: markAsSynced_opened store_get_put)
qed

theorem markAsSynced_again_witness:
  "synced ((sample ''gen_1_a'' ''user_1'' 10)\<lparr>synced := Some True\<rparr>) = Some True \<and>
   (\<exists>s'. markAsSynced None 30 31 ''gen_1_a''
            \<lparr>db = Some [(sample ''gen_1_a'' ''user_1'' 10)\<lparr>synced := Some True\<rparr>]\<rparr>
          = Inr \<lparr>db = Some s'\<rparr> \<and>
      store_get ''gen_1_a'' s' =
        Some ((sample ''gen_1_a'' ''user_1'' 10)
                \<lparr>synced := Some True, lastSyncAttempt := Some (DateObj 30),
                  updatedAt := Some (DateObj 31)\<rparr>))"
proof -
  let ?g = "(sample ''gen_1_a'' ''user_1'' 10)\<lparr>synced := Some True\<rparr>"
  have h1: "opened None \<lparr>db = Some [?g]\<rparr> = Inr [?g]" by simp
  have h2: "store_get ''gen_1_a'' [?g] = Some ?g" by (simp add: sample_def)
  have h3: "synced ?g = Some True" by simp
  show ?thesis
    using h3 markAsSynced_again [OF h1 h2 h3, of 30 31] by auto
qed

text \<open>
  The claim as it was stated, that the second call changes \<open>lastSyncAttempt\<close> only,
  fails: after a first call at times 20 and 21 and a second at times 30 and 31 the record
  differs from the one after the first call in \<open>updatedAt\<close> too.
\<close>

theorem markAsSynced_again_changes_updatedAt:
  "markAsSynced None 20 21 ''gen_1_a'' \<lparr>db = Some [sample ''gen_1_a'' ''user_1'' 10]\<rparr>
     = Inr \<lparr>db = Some [(sample ''gen_1_a'' ''user_1'' 10)
            \<lparr>synced := Some True, lastSyncAttempt := Some (DateObj 20),
              updatedAt := Some (DateObj 21)\<rparr>]\<rparr> \<and>
   markAsSynced None 30 31 ''gen_1_a''
       \<lparr>db = Some [(sample ''gen_1_a'' ''user_1'' 10)
            \<lparr>synced := Some True, lastSyncAttempt := Some (DateObj 20),
              updatedAt := Some (DateObj 21)\<rparr>]\<rparr>
     = Inr \<lparr>db = Some [(sample ''gen_1_a'' ''user_1'' 10)
            \<lparr>synced := Some True, lastSyncAttempt := Some (DateObj 30),
              updatedAt := Some (DateObj 31)\<rparr>]\<rparr> \<and>
   (sample ''gen_1_a'' ''user_1'' 10)
       \<lparr>synced := Some True, lastSyncAttempt := Some (DateObj 30),
         updatedAt := Some (DateObj 31)\<rparr>
     \<noteq> (sample ''gen_1_a'' ''user_1'' 10)
       \<lparr>synced := Some True, lastSyncAttempt := Some (DateObj 30),
         updatedAt := Some (DateObj 21)\<rparr>"
  by (simp add: markAsSynced_opened sample_def)

subsection \<open>What a write keeps of a record\<close>

lemma record_has_update:
  assumes "record_has P engine i m"
    and "updateGeneration engine now j u m = Inr m'"
    and "\<And>h. update_key j u = Some i \<Longrightarrow> id' h = j \<Longrightarrow> (j = i \<longrightarrow> P h) \<Longrightarrow>
           P (merge h u now i)"
  shows "record_has P engine i m'"
proof -
  obtain s g where s: "opened engine m = Inr s" and g: "store_get i s = Some g" and "P g"
    using assms(1) by (auto simp: record_has_def split: sum.splits option.splits)
  obtain h k where h: "store_get j s = Some h" and k: "update_key j u = Some k"
    and m': "m' = \<lparr>db = Some (store_put (merge h u now k) s)\<rparr>"
    using assms(2) s by (auto simp: updateGeneration_opened split: option.splits)
  have idh: "id' h = j" using h by (rule store_get_id)
  show ?thesis
  proof (cases "k = i")
    case True
    have "j = i \<longrightarrow> P h"
      using g h \<open>P g\<close> by auto
    then have "P (merge h u now i)"
      using assms(3) k True idh by simp
    then show ?thesis
      using True m' by (simp add: record_has_def store_get_put)
  next
    case False
    then show ?thesis
      using m' g \<open>P g\<close> by (simp add: record_has_def store_get_put)
  qed
qed

lemma record_has_update_same:
  assumes "record_has P engine i m"
    and "u_id u = None"
    and "\<And>g. P g \<Longrightarrow> P (merge g u now (id' g))"
    and "updateGeneration engine now j u m = Inr m'"
  shows "record_has P engine i m'"
  using assms(1,4)
proof (rule record_has_update)
  fix h
  assume "update_key j u = Some i" and "id' h = j" and "j = i \<longrightarrow> P h"
  then show "P (merge h u now i)"
    using assms(2) assms(3) [of h] by (simp add: update_key_def)
qed

lemma record_has_markAsSynced:
  assumes "record_has P engine i m"
    and "\<And>g a n. P g \<Longrightarrow> P (g\<lparr>synced := Some True, lastSyncAttempt := Some a,
                              updatedAt := Some (DateObj n)\<rparr>)"
    and "markAsSynced engine a n j m = Inr m'"
  shows "record_has P engine i m'"
proof -
  obtain s where s: "opened engine m = Inr s"
    using assms(1) by (auto simp: record_has_def split: sum.splits)
  let ?u = "no_updates\<lparr>u_synced := Some (Some True),
              u_lastSyncAttempt := Some (Some (DateObj a))\<rparr>"
  have "updateGeneration engine n j ?u m = Inr m'"
    using assms(3) s by (simp add: markAsSynced_def updateGeneration_opened)
  moreover have "u_id ?u = None" by (simp add: no_updates_def)
  moreover have "\<And>g. P g \<Longrightarrow> P (merge g ?u n (id' g))"
    using assms(2) by (simp add: merge_synced)
  ultimately show ?thesis
    using assms(1) record_has_update_same by blast
qed

lemma store_get_fold_put:
  "store_get i (fold store_put data s) =
     (case rev (filter (\<lambda>d. id' d = i) data) of
        [] \<Rightarrow> store_get i s
      | d # earlier \<Rightarrow> Some d)"
proof (induction data arbitrary: s)
  case Nil
  then show ?case by simp
next
  case (Cons x xs)
  show ?case
    using Cons [of "store_put x s"]
    by (cases "rev (filter (\<lambda>d. id' d = i) xs)") (auto simp: store_get_put)
qed

lemma importData_opened:
  "opened engine m = Inr s \<Longrightarrow>
   importData engine data m = Inr (length data, \<lparr>db = Some (fold store_put data s)\<rparr>)"
  by (simp add: importData_def)

lemma merge_failed:
  "merge g (no_updates\<lparr>u_syncAttempts := Some (Some c),
              u_lastSyncAttempt := Some (Some a)\<rparr>) n (id' g) =
   g\<lparr>syncAttempts := Some c, lastSyncAttempt := Some a, updatedAt := Some (DateObj n)\<rparr>"
  by (simp add: merge_def no_updates_def)

lemma merge_favorite:
  "merge g (no_updates\<lparr>u_favorite := Some (Some b)\<rparr>) n (id' g) =
   g\<lparr>favorite := Some b, updatedAt := Some (DateObj n)\<rparr>"
  by (simp add: merge_def no_updates_def)

lemma merge_tags:
  "merge g (no_updates\<lparr>u_tags := Some (Some ts)\<rparr>) n (id' g) =
   g\<lparr>tags := Some ts, updatedAt := Some (DateObj n)\<rparr>"
  by (simp add: merge_def no_updates_def)

lemma record_has_markSyncFailed:
  assumes "record_has P engine i m"
    and "\<And>g c a n. P g \<Longrightarrow> P (g\<lparr>syncAttempts := Some c, lastSyncAttempt := Some a,
                                updatedAt := Some (DateObj n)\<rparr>)"
    and "markSyncFailed engine a n j m = Inr m'"
  shows "record_has P engine i m'"
proof -
  obtain s where s: "opened engine m = Inr s"
    using assms(1) by (auto simp: record_has_def split: sum.splits)
  have rh: "record_has P engine i (m\<lparr>db := Some s\<rparr>)"
    using assms(1) s by (simp add: record_has_def)
  show ?thesis
  proof (cases "store_get j s")
    case None
    then show ?thesis
      using assms(3) s rh by (simp add: markSyncFailed_def getGenerationById_def)
  next
    case (Some h)
    let ?u = "no_updates\<lparr>u_syncAttempts := Some (Some (plusOne (or0 (syncAttempts h)))),
                u_lastSyncAttempt := Some (Some (DateObj a))\<rparr>"
    have "updateGeneration engine n j ?u (m\<lparr>db := Some s\<rparr>) = Inr m'"
      using assms(3) s Some by (simp add: markSyncFailed_def getGenerationById_def)
    moreover have "u_id ?u = None" by (simp add: no_updates_def)
    moreover have "\<And>g. P g \<Longrightarrow> P (merge g ?u n (id' g))"
      using assms(2) by (simp add: merge_failed)
    ultimately show ?thesis
      using rh record_has_update_same by blast
  qed
qed

lemma record_has_toggleFavorite:
  assumes "record_has P engine i m"
    and "\<And>g b n. P g \<Longrightarrow> P (g\<lparr>favorite := Some b, updatedAt := Some (DateObj n)\<rparr>)"
    and "toggleFavorite engine n j m = Inr (b, m')"
  shows "record_has P engine i m'"
proof -
  have "updateGeneration engine n j (no_updates\<lparr>u_favorite := Some (Some b)\<rparr>) m = Inr m'"
    using assms(3)
    by (auto simp: toggleFavorite_def Let_def split: sum.splits option.splits)
  moreover have "u_id (no_updates\<lparr>u_favorite := Some (Some b)\<rparr>) = None"
    by (simp add: no_updates_def)
  moreover have "\<And>g. P g \<Longrightarrow>
      P (merge g (no_updates\<lparr>u_favorite := Some (Some b)\<rparr>) n (id' g))"
    using assms(2) by (simp add: merge_favorite)
  ultimately show ?thesis
    using assms(1) record_has_update_same by blast
qed

lemma record_has_addTags:
  assumes "record_has P engine i m"
    and "\<And>g ts n. P g \<Longrightarrow> P (g\<lparr>tags := Some ts, updatedAt := Some (DateObj n)\<rparr>)"
    and "addTags engine n j ts m = Inr m'"
  shows "record_has P engine i m'"
proof -
  obtain newTags where "updateGeneration engine n j
      (no_updates\<lparr>u_tags := Some (Some newTags)\<rparr>) m = Inr m'"
    using assms(3)
    by (auto simp: addTags_def Let_def split: sum.splits option.splits)
  moreover have "u_id (no_updates\<lparr>u_tags := Some (Some newTags)\<rparr>) = None"
    by (simp add: no_updates_def)
  moreover have "\<And>g. P g \<Longrightarrow>
      P (merge g (no_updates\<lparr>u_tags := Some (Some newTags)\<rparr>) n (id' g))"
    using assms(2) by (simp add: merge_tags)
  ultimately show ?thesis
    using assms(1) record_has_update_same by blast
qed

lemma record_has_import:
  assumes "record_has P engine i m"
    and "case rev (filter (\<lambda>d. id' d = i) data) of [] \<Rightarrow> True | d # earlier \<Rightarrow> P d"
  shows "record_has P engine i (perform engine attempt now (Import data) m)"
proof -
  obtain s g where s: "opened engine m = Inr s" and g: "store_get i s = Some g" and "P g"
    using assms(1) by (auto simp: record_has_def split: sum.splits option.splits)
  show ?thesis
    using s g \<open>P g\<close> assms(2)
    by (cases "rev (filter (\<lambda>d. id' d = i) data)")
      (simp_all add: importData_opened record_has_def store_get_fold_put)
qed

subsection \<open>The lookup of the unsynced records\<close>

lemma getUnsyncedGenerations_throws:
  "getUnsyncedGenerations engine m =
     Inl (case opened engine m of Inl e \<Rightarrow> e | Inr s \<Rightarrow> DataError)"
  by (simp add: getUnsyncedGenerations_def split: sum.splits)

lemma syncToServer_world: "snd (syncToServer env engine w) = w"
  by (simp add: syncToServer_def getUnsyncedGenerations_throws)

lemma perform_SyncPass: "perform engine attempt now (SyncPass env) m = m"
  by (simp add: syncToServer_world)

lemma synced_in_record_has:
  "synced_in engine i m = record_has (\<lambda>g. synced g = Some True) engine i m"
  by (simp add: synced_in_def record_has_def)






subsection \<open>The flag \<open>synced\<close>\<close>

text \<open>
  Claim C3, as the code has it. Once \<open>synced\<close> is true of a stored record, it stays true
  under \<open>markAsSynced\<close>, \<open>markSyncFailed\<close>, \<open>toggleFavorite\<close>, \<open>addTags\<close> and a sync pass,
  on any record. It stays true under \<open>updateGeneration\<close> of the record unless the fields
  passed hold \<open>synced\<close> with the value \<open>false\<close> or \<open>undefined\<close>, and under
  \<open>updateGeneration\<close> of another record unless the fields hold the id of the record and
  do not hold \<open>synced: true\<close>. It stays true under \<open>importData\<close> unless the last item
  with the id of the record has a \<open>synced\<close> other than \<open>true\<close>.
\<close>

theorem synced_never_reset:
  assumes "synced_in engine i m" and "\<not> may_reset_synced i op"
  shows "synced_in engine i (perform engine attempt now op m)"
proof -
  let ?P = "\<lambda>g. synced g = Some True"
  have rh: "record_has ?P engine i m"
    using assms(1) by (simp add: synced_in_record_has)
  have "record_has ?P engine i (perform engine attempt now op m)"
  proof (cases op)
    case (Update j u)
    show ?thesis
    proof (cases "updateGeneration engine now j u m")
      case (Inl e)
      then show ?thesis using rh Update by simp
    next
      case (Inr m')
      have "record_has ?P engine i m'"
        using rh Inr
      proof (rule record_has_update)
        fix h :: generation
        assume k: "update_key j u = Some i" and "id' h = j" and h: "j = i \<longrightarrow> ?P h"
        have "u_synced u = Some (Some True) \<or> (j = i \<and> u_synced u = None)"
          using assms(2) Update k by auto
        then show "?P (merge h u now i)"
          using h by (auto simp: merge_def)
      qed
      then show ?thesis using Update Inr by simp
    qed
  next
    case (MarkSynced j)
    then show ?thesis
      using rh record_has_markAsSynced [of ?P engine i m attempt now j]
      by (auto split: sum.splits)
  next
    case (MarkSyncFailed j)
    then show ?thesis
      using rh record_has_markSyncFailed [of ?P engine i m attempt now j]
      by (auto split: sum.splits)
  next
    case (ToggleFavorite j)
    then show ?thesis
      using rh record_has_toggleFavorite [of ?P engine i m now j]
      by (auto split: sum.splits)
  next
    case (AddTags j ts)
    then show ?thesis
      using rh record_has_addTags [of ?P engine i m now j ts]
      by (auto split: sum.splits)
  next
    case (Import data)
    have "case rev (filter (\<lambda>d. id' d = i) data) of [] \<Rightarrow> True | d # earlier \<Rightarrow> ?P d"
      using assms(2) Import by (simp split: list.splits)
    then show ?thesis
      using rh Import record_has_import [of ?P engine i m data attempt now] by simp
  next
    case (SyncPass env)
    then show ?thesis
      using rh by (simp only: perform_SyncPass)
  qed
  then show ?thesis
    by (simp add: synced_in_record_has)
qed

theorem synced_never_reset_witness:
  "synced_in None ''gen_1_a''
     \<lparr>db = Some [(sample ''gen_1_a'' ''user_1'' 10)\<lparr>synced := Some True\<rparr>]\<rparr> \<and>
   \<not> may_reset_synced ''gen_1_a''
       (Update ''gen_1_a'' (no_updates\<lparr>u_prompt := Some (Some ''a dog'')\<rparr>)) \<and>
   perform None 30 31 (Update ''gen_1_a'' (no_updates\<lparr>u_prompt := Some (Some ''a dog'')\<rparr>))
       \<lparr>db = Some [(sample ''gen_1_a'' ''user_1'' 10)\<lparr>synced := Some True\<rparr>]\<rparr>
     = \<lparr>db = Some [(sample ''gen_1_a'' ''user_1'' 10)
          \<lparr>synced := Some True, prompt := Some ''a dog'', updatedAt := Some (DateObj 31)\<rparr>]\<rparr> \<and>
   synced_in None ''gen_1_a''
     (perform None 30 31 (Update ''gen_1_a'' (no_updates\<lparr>u_prompt := Some (Some ''a dog'')\<rparr>))
        \<lparr>db = Some [(sample ''gen_1_a'' ''user_1'' 10)\<lparr>synced := Some True\<rparr>]\<rparr>)"
proof -
  let ?m = "\<lparr>db = Some [(sample ''gen_1_a'' ''user_1'' 10)\<lparr>synced := Some True\<rparr>]\<rparr>"
  let ?op = "Update ''gen_1_a'' (no_updates\<lparr>u_prompt := Some (Some ''a dog'')\<rparr>)"
  have h1: "synced_in None ''gen_1_a'' ?m"
    by (simp add: synced_in_def sample_def)
  have h2: "\<not> may_reset_synced ''gen_1_a'' ?op"
    by (simp add: no_updates_def)
  have run: "perform None 30 31 ?op ?m
      = \<lparr>db = Some [(sample ''gen_1_a'' ''user_1'' 10)
           \<lparr>synced := Some True, prompt := Some ''a dog'', updatedAt := Some (DateObj 31)\<rparr>]\<rparr>"
    by (simp add: updateGeneration_opened update_key_def merge_def no_updates_def sample_def)
  show ?thesis
    using h1 h2 run synced_never_reset [OF h1 h2, of 30 31] by simp
qed

text \<open>
  The claim as it was stated fails for each of the writes that the theorem leaves out.
  On a record that is synced, an update with \<open>synced: false\<close> stores \<open>false\<close>, an update
  with \<open>synced: undefined\<close> stores \<open>undefined\<close>, an update of another, unsynced record
  that passes the id of the synced one stores the other record under that id, and an
  import of an unsynced record with the id takes the place of the synced one.
\<close>

theorem update_and_import_reset_synced:
  "synced_in None ''gen_1_a''
     \<lparr>db = Some [(sample ''gen_1_a'' ''user_1'' 10)\<lparr>synced := Some True\<rparr>,
                 sample ''gen_2_b'' ''user_1'' 20]\<rparr> \<and>
   updateGeneration None 50 ''gen_1_a'' (no_updates\<lparr>u_synced := Some (Some False)\<rparr>)
       \<lparr>db = Some [(sample ''gen_1_a'' ''user_1'' 10)\<lparr>synced := Some True\<rparr>,
                   sample ''gen_2_b'' ''user_1'' 20]\<rparr>
     = Inr \<lparr>db = Some [(sample ''gen_1_a'' ''user_1'' 10)
                        \<lparr>synced := Some False, updatedAt := Some (DateObj 50)\<rparr>,
                      sample ''gen_2_b'' ''user_1'' 20]\<rparr> \<and>
   updateGeneration None 50 ''gen_1_a'' (no_updates\<lparr>u_synced := Some None\<rparr>)
       \<lparr>db = Some [(sample ''gen_1_a'' ''user_1'' 10)\<lparr>synced := Some True\<rparr>,
                   sample ''gen_2_b'' ''user_1'' 20]\<rparr>
     = Inr \<lparr>db = Some [(sample ''gen_1_a'' ''user_1'' 10)
                        \<lparr>synced := None, updatedAt := Some (DateObj 50)\<rparr>,
                      sample ''gen_2_b'' ''user_1'' 20]\<rparr> \<and>
   updateGeneration None 50 ''gen_2_b'' (no_updates\<lparr>u_id := Some (Some ''gen_1_a'')\<rparr>)
       \<lparr>db = Some [(sample ''gen_1_a'' ''user_1'' 10)\<lparr>synced := Some True\<rparr>,
                   sample ''gen_2_b'' ''user_1'' 20]\<rparr>
     = Inr \<lparr>db = Some [(sample ''gen_1_a'' ''user_1'' 20)\<lparr>updatedAt := Some (DateObj 50)\<rparr>,
                      sample ''gen_2_b'' ''user_1'' 20]\<rparr> \<and>
   importData None [sample ''gen_1_a'' ''user_1'' 10]
       \<lparr>db = Some [(sample ''gen_1_a'' ''user_1'' 10)\<lparr>synced := Some True\<rparr>,
                   sample ''gen_2_b'' ''user_1'' 20]\<rparr>
     = Inr (1, \<lparr>db = Some [sample ''gen_1_a'' ''user_1'' 10,
                           sample ''gen_2_b'' ''user_1'' 20]\<rparr>) \<and>
   synced (sample ''gen_1_a'' ''user_1'' 10) = Some False \<and>
   synced (sample ''gen_1_a'' ''user_1'' 20) = Some False"
  by (simp add: synced_in_def updateGeneration_opened update_key_def importData_def merge_def
      no_updates_def sample_def)

subsection \<open>The counter \<open>syncAttempts\<close>\<close>




section \<open>Properties of the query\<close>

lemma take_min_length: "take (min n (length ys)) ys = take n ys"
  by (simp add: min_def)

lemma slice_nonneg:
  assumes "0 \<le> offset" and "0 \<le> limit"
  shows "slice offset (offset + limit) xs = take (nat limit) (drop (nat offset) xs)"
proof (cases "offset \<le> int (length xs)")
  case True
  then have "nat (min (offset + limit) (int (length xs)) - offset)
      = min (nat limit) (length xs - nat offset)"
    using assms by (simp add: min_def) linarith
  moreover have "take (min (nat limit) (length xs - nat offset)) (drop (nat offset) xs)
      = take (nat limit) (drop (nat offset) xs)"
    using take_min_length [of "nat limit" "drop (nat offset) xs"] by simp
  ultimately show ?thesis
    using True assms by (simp add: slice_def Let_def min_absorb1)
next
  case False
  then show ?thesis
    using assms by (simp add: slice_def Let_def min_def)
qed

subsection \<open>The insertion sort is a sort of the language\<close>

lemma set_insertBy: "set (insertBy cmp x ys) = insert x (set ys)"
  by (induction ys) auto

lemma set_insertionSort: "set (insertionSort cmp xs) = set xs"
  by (induction xs) (simp_all add: insertionSort_def set_insertBy)

lemma insertBy_insort_key:
  assumes "\<forall>y \<in> set ys. cmp x y = Some (key x - key y)"
  shows "insertBy cmp x ys = insort_key key x ys"
  using assms by (induction ys) (auto simp: or0_def)

lemma insertionSort_sort_key:
  assumes "\<forall>x \<in> set xs. \<forall>y \<in> set xs. cmp x y = Some (key x - key y)"
  shows "insertionSort cmp xs = sort_key key xs"
  using assms
proof (induction xs)
  case Nil
  then show ?case by (simp add: insertionSort_def)
next
  case (Cons x xs)
  have IH: "foldr (insertBy cmp) xs [] = sort_key key xs"
    using Cons by (simp add: insertionSort_def)
  have "\<forall>y \<in> set (sort_key key xs). cmp x y = Some (key x - key y)"
    using Cons.prems by simp
  then show ?case
    using IH by (simp add: insertionSort_def insertBy_insort_key)
qed

lemma ecma_sort_insertionSort: "ecma_sort insertionSort"
  unfolding ecma_sort_def by (intro allI impI insertionSort_sort_key)

subsection \<open>The method and the specification\<close>

lemma destructure_given:
  "q_type (destructure options) = given o_type options"
  "q_syncedOnly (destructure options) = given o_syncedOnly options"
  "q_favoritesOnly (destructure options) = given o_favoritesOnly options"
  "q_limit (destructure options) = spec_limit options"
  "q_offset (destructure options) = spec_offset options"
  by (simp_all add: destructure_def given_def spec_limit_def spec_offset_def no_options_def
      Let_def split: option.splits)

lemma filters_compose:
  "(if given o_favoritesOnly options = Some True
    then filter (\<lambda>item. favorite item = Some True)
    else (\<lambda>xs. xs))
     ((case given o_syncedOnly options of
         Some syncedOnly \<Rightarrow> filter (\<lambda>item. synced item = Some syncedOnly)
       | None \<Rightarrow> (\<lambda>xs. xs))
        (case given o_type options of
           Some t \<Rightarrow> filter (\<lambda>g. userId g = Some uid \<and> type' g = Some t) s
         | None \<Rightarrow> filter (\<lambda>g. userId g = Some uid) s))
   = filter (spec_matches uid options) s"
  by (auto simp: spec_matches_def split: option.splits bool.splits intro!: filter_cong)

lemma getGenerations_opened:
  "opened engine m = Inr s \<Longrightarrow>
   getGenerations arraySort engine uid options m =
     Inr (slice (spec_offset options) (spec_offset options + spec_limit options)
            (arraySort (compareFn (q_sortBy (destructure options))
                          (q_sortOrder (destructure options)))
               (filter (spec_matches uid options) s)))"
  using filters_compose [of options uid s]
  by (simp add: getGenerations_def Let_def destructure_given split: option.splits if_splits)

lemma compareFn_spec_rank:
  assumes "spec_field options a = Some (DateObj ta)"
    and "spec_field options b = Some (DateObj tb)"
  shows "compareFn (q_sortBy (destructure options)) (q_sortOrder (destructure options)) a b
           = Some (spec_rank options a - spec_rank options b)"
proof -
  have "given o_sortBy options = Some UpdatedAt \<or> given o_sortBy options = Some CreatedAt
      \<or> given o_sortBy options = None"
    by (cases "given o_sortBy options") (auto intro: sort_field.exhaust)
  moreover have "given o_sortOrder options = Some Asc \<or> given o_sortOrder options = Some Desc
      \<or> given o_sortOrder options = None"
    by (cases "given o_sortOrder options") (auto intro: sort_order.exhaust)
  ultimately show ?thesis
    using assms
    by (cases options)
      (auto simp: compareFn_def sortValue_def spec_rank_def spec_field_def time_of_def
        destructure_def given_def no_options_def Let_def)
qed

lemma getGenerations_query_spec:
  assumes "ecma_sort arraySort" and "opened engine m = Inr s"
    and "0 \<le> spec_limit options" and "0 \<le> spec_offset options"
    and "\<forall>g \<in> set s. spec_matches uid options g \<longrightarrow>
           (\<exists>t. spec_field options g = Some (DateObj t))"
  shows "getGenerations arraySort engine uid options m = Inr (query_spec uid options s)"
proof -
  let ?xs = "filter (spec_matches uid options) s"
  let ?cmp = "compareFn (q_sortBy (destructure options)) (q_sortOrder (destructure options))"
  have "\<forall>x \<in> set ?xs. \<forall>y \<in> set ?xs.
      ?cmp x y = Some (spec_rank options x - spec_rank options y)"
  proof (intro ballI)
    fix x y
    assume "x \<in> set ?xs" and "y \<in> set ?xs"
    then have "\<exists>t. spec_field options x = Some (DateObj t)"
      and "\<exists>t. spec_field options y = Some (DateObj t)"
      using assms(5) by simp_all
    then obtain tx ty where "spec_field options x = Some (DateObj tx)"
      and "spec_field options y = Some (DateObj ty)"
      by blast
    then show "?cmp x y = Some (spec_rank options x - spec_rank options y)"
      by (rule compareFn_spec_rank)
  qed
  then have srt: "arraySort ?cmp ?xs = sort_key (spec_rank options) ?xs"
    using assms(1) unfolding ecma_sort_def by blast
  show ?thesis
    using assms(2-4) srt
    by (simp add: getGenerations_opened slice_nonneg query_spec_def)
qed



section \<open>Properties of export and import\<close>

subsection \<open>Well-formed stores\<close>

lemma ids_store_put: "id' ` set (store_put g s) = insert (id' g) (id' ` set s)"
  by (induction s) auto

lemma store_inv_put: "store_inv s \<Longrightarrow> store_inv (store_put g s)"
proof (induction s)
  case Nil
  then show ?case by (simp add: store_inv_def)
next
  case (Cons h hs)
  have hs: "store_inv hs" and lt: "\<forall>y \<in> set hs. id' h < id' y"
    using Cons.prems by (auto simp: store_inv_def)
  show ?case
  proof (cases "id' g = id' h")
    case True
    then show ?thesis using Cons.prems by (simp add: store_inv_def)
  next
    case False
    show ?thesis
    proof (cases "id' g < id' h")
      case True
      then show ?thesis
        using Cons.prems False by (auto simp: store_inv_def)
    next
      case ge: False
      have "\<forall>y \<in> set (store_put g hs). id' h < id' y"
      proof
        fix y assume "y \<in> set (store_put g hs)"
        then have "id' y \<in> insert (id' g) (id' ` set hs)"
          using ids_store_put [of g hs] by blast
        then show "id' h < id' y"
          using lt False ge by auto
      qed
      then show ?thesis
        using False ge Cons.IH [OF hs] by (simp add: store_inv_def)
    qed
  qed
qed

lemma set_store_put:
  "store_inv s \<Longrightarrow> set (store_put g s) = insert g {h \<in> set s. id' h \<noteq> id' g}"
proof (induction s)
  case Nil
  then show ?case by simp
next
  case (Cons h hs)
  have hs: "store_inv hs" and lt: "\<forall>y \<in> set hs. id' h < id' y"
    using Cons.prems by (auto simp: store_inv_def)
  have IH: "set (store_put g hs) = insert g {x \<in> set hs. id' x \<noteq> id' g}"
    using Cons.IH [OF hs] .
  show ?case
  proof (cases "id' g = id' h")
    case True
    have "\<forall>y \<in> set hs. id' y \<noteq> id' g"
    proof
      fix y assume "y \<in> set hs"
      then have "id' h < id' y" using lt by simp
      then show "id' y \<noteq> id' g" unfolding True by (metis less_irrefl)
    qed
    then have "{x \<in> set (h # hs). id' x \<noteq> id' g} = set hs"
      using True by auto
    then show ?thesis using True by simp
  next
    case False
    show ?thesis
    proof (cases "id' g < id' h")
      case True
      have "\<forall>y \<in> set hs. id' y \<noteq> id' g"
      proof
        fix y assume "y \<in> set hs"
        then have "id' h < id' y" using lt by simp
        then show "id' y \<noteq> id' g" using True by (metis less_asym)
      qed
      then have "{x \<in> set (h # hs). id' x \<noteq> id' g} = set (h # hs)"
        using False by auto
      then show ?thesis using True False by simp
    next
      case ge: False
      have "{x \<in> set (h # hs). id' x \<noteq> id' g} = insert h {x \<in> set hs. id' x \<noteq> id' g}"
        using False by auto
      then show ?thesis
        using False ge IH by (simp add: insert_commute)
    qed
  qed
qed

lemma store_put_same: "store_inv t \<Longrightarrow> g \<in> set t \<Longrightarrow> store_put g t = t"
proof (induction t)
  case Nil
  then show ?case by simp
next
  case (Cons h hs)
  have hs: "store_inv hs" and lt: "\<forall>y \<in> set hs. id' h < id' y"
    using Cons.prems(1) by (auto simp: store_inv_def)
  show ?case
  proof (cases "g = h")
    case True
    then show ?thesis by simp
  next
    case False
    then have "g \<in> set hs" using Cons.prems(2) by simp
    then have "id' h < id' g" using lt by simp
    then have "id' g \<noteq> id' h" and "\<not> id' g < id' h"
      by (metis less_irrefl, metis less_not_sym)
    then show ?thesis
      using Cons.IH [OF hs \<open>g \<in> set hs\<close>] by simp
  qed
qed

text \<open>
  Every write of the manager is a \<open>put\<close> or a \<open>delete\<close>, so every store that it
  reaches from the empty one is well-formed.
\<close>

lemma store_inv_empty: "store_inv []"
  by (simp add: store_inv_def)

lemma set_store_delete: "set (store_delete k s) \<subseteq> set s"
  by (induction s) auto

lemma store_inv_delete: "store_inv s \<Longrightarrow> store_inv (store_delete k s)"
proof (induction s)
  case Nil
  then show ?case by simp
next
  case (Cons h hs)
  have hs: "store_inv hs" and lt: "\<forall>y \<in> set hs. id' h < id' y"
    using Cons.prems by (auto simp: store_inv_def)
  have "\<forall>y \<in> set (store_delete k hs). id' h < id' y"
    using lt set_store_delete [of k hs] by blast
  then show ?case
    using hs Cons.IH [OF hs] by (simp add: store_inv_def)
qed

lemma store_inv_fold_put: "store_inv t \<Longrightarrow> store_inv (fold store_put xs t)"
  by (induction xs arbitrary: t) (simp_all add: store_inv_put)

lemma set_fold_put:
  "store_inv t \<Longrightarrow> distinct (map id' xs) \<Longrightarrow>
   set (fold store_put xs t) = set xs \<union> {h \<in> set t. id' h \<notin> id' ` set xs}"
proof (induction xs arbitrary: t)
  case Nil
  then show ?case by simp
next
  case (Cons x xs)
  have inv: "store_inv (store_put x t)"
    using Cons.prems(1) by (rule store_inv_put)
  have d: "distinct (map id' xs)" and nx: "id' x \<notin> id' ` set xs"
    using Cons.prems(2) by simp_all
  have "set (fold store_put (x # xs) t)
      = set xs \<union> {h \<in> set (store_put x t). id' h \<notin> id' ` set xs}"
    using Cons.IH [OF inv d] by simp
  also have "set (store_put x t) = insert x {h \<in> set t. id' h \<noteq> id' x}"
    using Cons.prems(1) by (rule set_store_put)
  finally show ?case
    using nx by auto
qed

lemma store_inv_unique:
  assumes "store_inv a" and "store_inv b" and "set a = set b"
  shows "a = b"
proof -
  have "set (map id' a) = set (map id' b)"
    using assms(3) by simp
  then have m: "map id' a = map id' b"
    using assms(1,2) strict_sorted_equal [of "map id' b" "map id' a"]
    by (simp add: store_inv_def)
  have "distinct (map id' a)"
    using assms(1) by (simp add: store_inv_def strict_sorted_iff)
  then have "inj_on id' (set a \<union> set b)"
    using assms(3) by (simp add: distinct_map)
  then show ?thesis
    using m by (rule map_inj_on [rotated])
qed

lemma store_inv_filter: "store_inv s \<Longrightarrow> store_inv (filter P s)"
  by (simp add: store_inv_def sorted_wrt_map sorted_wrt_filter)

lemma fold_put_same:
  "store_inv t \<Longrightarrow> set xs \<subseteq> set t \<Longrightarrow> fold store_put xs t = t"
  by (induction xs) (simp_all add: store_put_same)

lemma store_inv_distinct: "store_inv s \<Longrightarrow> distinct (map id' s)"
  by (simp add: store_inv_def strict_sorted_iff)

lemma distinct_insort_key:
  "distinct (map f (insort_key k x ys)) = (f x \<notin> f ` set ys \<and> distinct (map f ys))"
  by (induction ys) (auto simp: set_insort_key)

lemma distinct_sort_key: "distinct (map f (sort_key k xs)) = distinct (map f xs)"
  by (induction xs) (simp_all add: distinct_insort_key)

subsection \<open>What the text keeps of a record\<close>

lemma id_toJSON [simp]: "id' (toJSON g) = id' g"
  by (simp add: toJSON_def)

lemma store_inv_toJSON: "store_inv s \<Longrightarrow> store_inv (map toJSON s)"
  by (simp add: store_inv_def o_def)

lemma exportData_opened:
  assumes "ecma_sort arraySort" and "opened engine m = Inr s"
    and "\<forall>g \<in> set (recordsOf uid s). \<exists>t. createdAt g = Some (DateObj t)"
  shows "exportData arraySort engine uid m =
           Inr (JsonText (map toJSON
                  (take 10000 (sort_key (\<lambda>g. - time_of (createdAt g)) (recordsOf uid s)))))"
proof -
  let ?o = "Some (no_options\<lparr>o_limit := Some 10000\<rparr>)"
  have m: "spec_matches uid ?o = (\<lambda>g. userId g = Some uid)"
    by (rule ext) (simp add: spec_matches_def given_def no_options_def)
  have f: "spec_field ?o = createdAt"
    by (rule ext) (simp add: spec_field_def given_def no_options_def)
  have r: "spec_rank ?o = (\<lambda>g. - time_of (createdAt g))"
    by (rule ext) (simp add: spec_rank_def spec_field_def given_def no_options_def)
  have l: "spec_limit ?o = 10000" and k: "spec_offset ?o = 0"
    by (simp_all add: spec_limit_def spec_offset_def given_def no_options_def)
  have "\<forall>g \<in> set s. spec_matches uid ?o g \<longrightarrow> (\<exists>t. spec_field ?o g = Some (DateObj t))"
    using assms(3) unfolding m f by (simp add: recordsOf_def)
  then have "getGenerations arraySort engine uid ?o m = Inr (query_spec uid ?o s)"
    using assms(1,2) l k by (intro getGenerations_query_spec) simp_all
  moreover have "query_spec uid ?o s
      = take 10000 (sort_key (\<lambda>g. - time_of (createdAt g)) (recordsOf uid s))"
    unfolding query_spec_def m r l k by (simp add: recordsOf_def)
  ultimately show ?thesis
    by (simp add: exportData_def JSON_stringify_def)
qed

text \<open>
  Claim C9, against the code. For a user with at most 10000 records in a well-formed
  store, each with a \<open>Date\<close> in \<open>createdAt\<close>, the text that \<open>exportData\<close> returns, parsed
  and passed to \<open>importData\<close> on an empty store, gives a store that holds under the ids
  of the records of the user not the records but what the text keeps of them: every date
  as a string, every binary result as an empty object. Passing the parsed text a second
  time leaves that store as it is.
\<close>

theorem export_import_keeps_json_values:
  assumes "ecma_sort arraySort" and "opened engine m = Inr s" and "store_inv s"
    and "length (recordsOf uid s) \<le> 10000"
    and "\<forall>g \<in> set (recordsOf uid s). \<exists>t. createdAt g = Some (DateObj t)"
  shows "\<exists>exported.
           exportData arraySort engine uid m = Inr exported \<and>
           importData None (JSON_parse exported) \<lparr>db = Some []\<rparr>
             = Inr (length (recordsOf uid s), \<lparr>db = Some (map toJSON (recordsOf uid s))\<rparr>) \<and>
           importData None (JSON_parse exported) \<lparr>db = Some (map toJSON (recordsOf uid s))\<rparr>
             = Inr (length (recordsOf uid s), \<lparr>db = Some (map toJSON (recordsOf uid s))\<rparr>) \<and>
           restored arraySort engine uid m = Inr \<lparr>db = Some (map toJSON (recordsOf uid s))\<rparr>"
proof -
  let ?rs = "recordsOf uid s"
  let ?ex = "sort_key (\<lambda>g. - time_of (createdAt g)) ?rs"
  let ?js = "map toJSON ?ex"
  have ex: "exportData arraySort engine uid m = Inr (JsonText ?js)"
    using exportData_opened [OF assms(1,2,5)] assms(4) by simp
  have inv_rs: "store_inv ?rs"
    using assms(3) by (simp add: recordsOf_def store_inv_filter)
  have inv_t: "store_inv (map toJSON ?rs)"
    using inv_rs by (rule store_inv_toJSON)
  have "distinct (map id' ?rs)"
    using inv_rs by (rule store_inv_distinct)
  then have d: "distinct (map id' ?js)"
    by (simp add: o_def distinct_sort_key)
  have inv0: "store_inv []" by (simp add: store_inv_def)
  have "set (fold store_put ?js []) = set (map toJSON ?rs)"
    using set_fold_put [OF inv0 d] by simp
  moreover have "store_inv (fold store_put ?js [])"
    using inv0 by (rule store_inv_fold_put)
  ultimately have first: "fold store_put ?js [] = map toJSON ?rs"
    using inv_t by (intro store_inv_unique)
  have second: "fold store_put ?js (map toJSON ?rs) = map toJSON ?rs"
    using inv_t by (intro fold_put_same) simp_all
  have len: "length ?js = length ?rs"
    by simp
  show ?thesis
    using ex first second len by (simp add: importData_def restored_def)
qed

text \<open>
  A store with two records of a user, one of them with binary data. The store restored
  from the export holds neither of them: the dates are strings, the binary data are
  gone.
\<close>

theorem export_import_changes_records:
  "restored insertionSort None ''user_1''
     \<lparr>db = Some [sample ''gen_1_a'' ''user_1'' 10, sample_file]\<rparr>
   = Inr \<lparr>db = Some [(sample ''gen_1_a'' ''user_1'' 10)
                       \<lparr>createdAt := Some (IsoString 10), updatedAt := Some (IsoString 10)\<rparr>,
                     sample_file
                       \<lparr>result := Some EmptyObject, createdAt := Some (IsoString 20),
                         updatedAt := Some (IsoString 20)\<rparr>]\<rparr> \<and>
   (sample ''gen_1_a'' ''user_1'' 10)
       \<lparr>createdAt := Some (IsoString 10), updatedAt := Some (IsoString 10)\<rparr>
     \<noteq> sample ''gen_1_a'' ''user_1'' 10 \<and>
   sample_file\<lparr>result := Some EmptyObject, createdAt := Some (IsoString 20),
                 updatedAt := Some (IsoString 20)\<rparr>
     \<noteq> sample_file"
proof -
  let ?s = "[sample ''gen_1_a'' ''user_1'' 10, sample_file]"
  have h1: "ecma_sort insertionSort" by (rule ecma_sort_insertionSort)
  have h2: "opened None \<lparr>db = Some ?s\<rparr> = Inr ?s" by simp
  have h3: "store_inv ?s"
    by (simp add: store_inv_def sample_file_def sample_def)
  have r: "recordsOf ''user_1'' ?s = ?s"
    by (simp add: recordsOf_def sample_file_def sample_def)
  have h4: "length (recordsOf ''user_1'' ?s) \<le> 10000"
    unfolding r by simp
  have h5: "\<forall>g \<in> set (recordsOf ''user_1'' ?s). \<exists>t. createdAt g = Some (DateObj t)"
    unfolding r by (simp add: sample_file_def sample_def)
  have j: "map toJSON ?s
      = [(sample ''gen_1_a'' ''user_1'' 10)
           \<lparr>createdAt := Some (IsoString 10), updatedAt := Some (IsoString 10)\<rparr>,
         sample_file\<lparr>result := Some EmptyObject, createdAt := Some (IsoString 20),
                       updatedAt := Some (IsoString 20)\<rparr>]"
    by (simp add: toJSON_def dateToJSON_def resultToJSON_def sample_file_def sample_def)
  have ne: "(sample ''gen_1_a'' ''user_1'' 10)
        \<lparr>createdAt := Some (IsoString 10), updatedAt := Some (IsoString 10)\<rparr>
      \<noteq> sample ''gen_1_a'' ''user_1'' 10"
    by (simp add: sample_def)
  have nf: "sample_file\<lparr>result := Some EmptyObject, createdAt := Some (IsoString 20),
        updatedAt := Some (IsoString 20)\<rparr> \<noteq> sample_file"
    by (simp add: sample_file_def sample_def)
  show ?thesis
    using export_import_keeps_json_values [OF h1 h2 h3 h4 h5] ne nf unfolding r j by blast
qed

section \<open>Properties of the sync pass\<close>

text \<open>
  Claim C1, against the code. A pass ends at its first step: the lookup of the unsynced
  records asks the index \<open>synced\<close> for the key \<open>false\<close>, which is not a key, and throws
  (or the database cannot be opened, and the prologue throws). The mutation throws the
  error again with the world as it found it: no record is pushed, none is marked.
\<close>

theorem syncToServer_ends_at_lookup:
  "syncToServer env engine w =
     (Inl (case opened engine (mgr w) of Inl e \<Rightarrow> e | Inr s \<Rightarrow> DataError), w)"
  by (simp add: syncToServer_def getUnsyncedGenerations_throws)

text \<open>
  The pass of the specification's example: three unsynced records, the endpoint refusing
  the second. The pass ends with \<open>DataError\<close>, nothing is posted, and the first record is
  as unsynced as it was.
\<close>

theorem sync_pass_of_three_records:
  "syncToServer (sample_env [''gen_2_b'']) None
     \<lparr>mgr = \<lparr>db = Some [sample ''gen_1_a'' ''user_1'' 10, sample ''gen_2_b'' ''user_1'' 20,
                         sample ''gen_3_c'' ''user_1'' 30]\<rparr>,
       posted = []\<rparr>
   = (Inl DataError,
      \<lparr>mgr = \<lparr>db = Some [sample ''gen_1_a'' ''user_1'' 10, sample ''gen_2_b'' ''user_1'' 20,
                          sample ''gen_3_c'' ''user_1'' 30]\<rparr>,
        posted = []\<rparr>) \<and>
   synced (sample ''gen_1_a'' ''user_1'' 10) = Some False"
  using syncToServer_ends_at_lookup [of "sample_env [''gen_2_b'']" None
      "\<lparr>mgr = \<lparr>db = Some [sample ''gen_1_a'' ''user_1'' 10, sample ''gen_2_b'' ''user_1'' 20,
                          sample ''gen_3_c'' ''user_1'' 30]\<rparr>,
         posted = []\<rparr>"]
  by (simp add: sample_def)

text \<open>
  The loop of the pass, handed these three records, does what the claim says: it posts
  the first and marks it, posts the second, and stops there with the error of the push.
\<close>

lemma syncItems_of_three_records:
  "syncItems (sample_env [''gen_2_b'']) None 0
     [sample ''gen_1_a'' ''user_1'' 10, sample ''gen_2_b'' ''user_1'' 20,
      sample ''gen_3_c'' ''user_1'' 30]
     \<lparr>mgr = \<lparr>db = Some [sample ''gen_1_a'' ''user_1'' 10, sample ''gen_2_b'' ''user_1'' 20,
                         sample ''gen_3_c'' ''user_1'' 30]\<rparr>,
       posted = []\<rparr>
   = (Some PushFailed,
      \<lparr>mgr = \<lparr>db = Some [(sample ''gen_1_a'' ''user_1'' 10)
                           \<lparr>synced := Some True, lastSyncAttempt := Some (DateObj 100),
                             updatedAt := Some (DateObj 101)\<rparr>,
                         sample ''gen_2_b'' ''user_1'' 20, sample ''gen_3_c'' ''user_1'' 30]\<rparr>,
        posted = [sample ''gen_1_a'' ''user_1'' 10, sample ''gen_2_b'' ''user_1'' 20]\<rparr>)"
  by (simp add: payload_def sample_env_def Let_def markAsSynced_opened sample_def)

section \<open>Properties of the quota facade\<close>

lemma readKey_freeLimits:
  "truthy (orFalse (readKey freeLimits feature)) =
     (feature \<in> {''imageGeneration'', ''codeGeneration''} \<union> set objectPrototype)"
proof (cases "map_of freeLimits feature")
  case None
  then show ?thesis
    by (simp add: readKey_def orFalse_def truthy_def freeLimits_def split: if_splits)
next
  case (Some b)
  then have own: "(feature, b) \<in> set freeLimits"
    by (rule map_of_SomeD)
  then have "feature \<notin> set objectPrototype"
    by (auto simp: freeLimits_def objectPrototype_def)
  moreover have "b = (feature \<in> {''imageGeneration'', ''codeGeneration''})"
    using Some by (simp add: freeLimits_def split: if_splits)
  ultimately show ?thesis
    using Some by (simp add: readKey_def orFalse_def truthy_def)
qed

lemma readKey_basicLimits:
  "truthy (orFalse (readKey basicLimits feature)) =
     (feature \<in> {''imageGeneration'', ''codeGeneration'', ''videoGeneration'',
                   ''audioGeneration'', ''highResolution'', ''batchProcessing''}
                 \<union> set objectPrototype)"
proof (cases "map_of basicLimits feature")
  case None
  then show ?thesis
    by (simp add: readKey_def orFalse_def truthy_def basicLimits_def split: if_splits)
next
  case (Some b)
  then have own: "(feature, b) \<in> set basicLimits"
    by (rule map_of_SomeD)
  then have "feature \<notin> set objectPrototype"
    by (auto simp: basicLimits_def objectPrototype_def)
  moreover have "b = (feature \<in> {''imageGeneration'', ''codeGeneration'', ''videoGeneration'',
                   ''audioGeneration'', ''highResolution'', ''batchProcessing''})"
    using Some by (simp add: basicLimits_def split: if_splits)
  ultimately show ?thesis
    using Some by (simp add: readKey_def orFalse_def truthy_def)
qed

text \<open>
  Claim C7, against the code. What \<open>hasFeatureAccess\<close> returns is truthy for the
  features of the allow-list of the plan and, under \<open>free\<close> and \<open>basic\<close>, for every name
  that an object inherits from \<open>Object.prototype\<close> as well: for such a name the table
  yields the inherited function, not \<open>undefined\<close>, and \<open>|| false\<close> lets it through. For
  every other feature the claim holds: without a subscription and under a plan that is not
  known nothing is allowed, under \<open>pro\<close> everything.
\<close>

theorem hasFeatureAccess_allows_inherited_names:
  "truthy (hasFeatureAccess sub feature) =
     (case sub of
        None \<Rightarrow> False
      | Some s \<Rightarrow>
          if plan s = ''free'' then
            feature \<in> {''imageGeneration'', ''codeGeneration''} \<union> set objectPrototype
          else if plan s = ''basic'' then
            feature \<in> {''imageGeneration'', ''codeGeneration'', ''videoGeneration'',
                        ''audioGeneration'', ''highResolution'', ''batchProcessing''}
                      \<union> set objectPrototype
          else plan s = ''pro'')"
proof (cases sub)
  case None
  then show ?thesis by (simp add: hasFeatureAccess_def truthy_def)
next
  case (Some s)
  show ?thesis
    unfolding Some hasFeatureAccess_def option.case
    using readKey_freeLimits [of feature] readKey_basicLimits [of feature]
    by (simp add: truthy_def)
qed

text \<open>
  Two features that are in no allow-list and are allowed: \<open>constructor\<close> under \<open>free\<close>
  and \<open>toString\<close> under \<open>basic\<close>. The three values that the specification lists are as
  it says.
\<close>

theorem hasFeatureAccess_constructor:
  "hasFeatureAccess (Some \<lparr>plan = ''free'', status = ''active''\<rparr>) ''constructor''
     = Inherited ''constructor'' \<and>
   truthy (hasFeatureAccess (Some \<lparr>plan = ''free'', status = ''active''\<rparr>) ''constructor'') \<and>
   truthy (hasFeatureAccess (Some \<lparr>plan = ''basic'', status = ''active''\<rparr>) ''toString'') \<and>
   hasFeatureAccess (Some \<lparr>plan = ''free'', status = ''active''\<rparr>) ''videoGeneration''
     = Boolean False \<and>
   hasFeatureAccess (Some \<lparr>plan = ''pro'', status = ''active''\<rparr>) ''videoGeneration''
     = Boolean True \<and>
   hasFeatureAccess (Some \<lparr>plan = ''unknownplan'', status = ''active''\<rparr>) ''imageGeneration''
     = Boolean False"
proof -
  have a: "hasFeatureAccess (Some \<lparr>plan = ''free'', status = ''active''\<rparr>) ''constructor''
      = Inherited ''constructor''"
    by (simp add: hasFeatureAccess_def readKey_def orFalse_def truthy_def freeLimits_def
        objectPrototype_def)
  have b: "hasFeatureAccess (Some \<lparr>plan = ''free'', status = ''active''\<rparr>) ''videoGeneration''
      = Boolean False"
    by (simp add: hasFeatureAccess_def readKey_def orFalse_def truthy_def freeLimits_def)
  have c: "hasFeatureAccess (Some \<lparr>plan = ''pro'', status = ''active''\<rparr>) ''videoGeneration''
      = Boolean True"
    by (simp add: hasFeatureAccess_def)
  have d: "hasFeatureAccess (Some \<lparr>plan = ''unknownplan'', status = ''active''\<rparr>)
      ''imageGeneration'' = Boolean False"
    by (simp add: hasFeatureAccess_def)
  have e: "truthy (hasFeatureAccess (Some \<lparr>plan = ''free'', status = ''active''\<rparr>)
      ''constructor'')"
    using hasFeatureAccess_allows_inherited_names
      [of "Some \<lparr>plan = ''free'', status = ''active''\<rparr>" "''constructor''"]
    by (simp add: objectPrototype_def)
  have f: "truthy (hasFeatureAccess (Some \<lparr>plan = ''basic'', status = ''active''\<rparr>)
      ''toString'')"
    using hasFeatureAccess_allows_inherited_names
      [of "Some \<lparr>plan = ''basic'', status = ''active''\<rparr>" "''toString''"]
    by (simp add: objectPrototype_def)
  show ?thesis
    using a b c d e f by simp
qed

text \<open>
  Claim C8, as the code has it. No quota check throws. Without usage data or without
  limits of the plan, \<open>getRemainingQuota\<close> is \<open>0\<close> (nothing left: the check denies), and
  \<open>hasReachedLimit\<close> is \<open>false\<close> (limit not reached: the check does not deny). With
  both at hand, \<open>hasReachedLimit\<close> is \<open>false\<close> for the limit \<open>unlimited\<close> and for a feature
  that has no limit, and otherwise true exactly when the usage of the feature, \<open>0\<close> if
  absent, is at least the limit.
\<close>

theorem quota_checks:
  "(usage = None \<or> planLimits currentPlan = None \<longrightarrow>
      hasReachedLimit usage currentPlan feature = False \<and>
      getRemainingQuota usage currentPlan feature = Quota 0) \<and>
   (\<forall>u l. usage = Some u \<and> planLimits currentPlan = Some l \<longrightarrow>
      hasReachedLimit usage currentPlan feature =
        (case l feature of
           None \<Rightarrow> False
         | Some Unlimited \<Rightarrow> False
         | Some (Limit n) \<Rightarrow> or0 (u feature) \<ge> n))"
  by (auto simp: hasReachedLimit_def getRemainingQuota_def split: option.splits limit.splits)

theorem quota_checks_witness:
  "planLimits None = None \<and>
   hasReachedLimit (Some sample_usage) None ''imageGeneration'' = False \<and>
   getRemainingQuota (Some sample_usage) None ''imageGeneration'' = Quota 0 \<and>
   planLimits (Some sample_plan) = limits sample_plan \<and>
   hasReachedLimit (Some sample_usage) (Some sample_plan) ''imageGeneration'' = True \<and>
   hasReachedLimit (Some sample_usage) (Some sample_plan) ''codeGeneration'' = False"
  using quota_checks [of "Some sample_usage" None "''imageGeneration''"]
    quota_checks [of "Some sample_usage" "Some sample_plan" "''imageGeneration''"]
    quota_checks [of "Some sample_usage" "Some sample_plan" "''codeGeneration''"]
  by (simp add: planLimits_def sample_plan_def sample_usage_def or0_def)

text \<open>
  The claim as it was stated, that every quota check denies when data are missing,
  fails for \<open>hasReachedLimit\<close>: with the usage at the limit it reports the limit
  reached, and with the usage data or the plan missing it reports the limit not reached.
\<close>

theorem hasReachedLimit_allows_without_usage:
  "hasReachedLimit None (Some sample_plan) ''imageGeneration'' = False \<and>
   hasReachedLimit (Some sample_usage) None ''imageGeneration'' = False \<and>
   hasReachedLimit (Some sample_usage) (Some sample_plan) ''imageGeneration'' = True"
  by (simp add: hasReachedLimit_def planLimits_def sample_plan_def sample_usage_def or0_def)


end
